theory Spec2Isabelle
  imports Main "HOL-Library.Word" "HOL-Library.AList"
begin

section \<open>JavaScript values used by the file store and the session lifecycle\<close>

subsection \<open>Strings\<close>

text \<open>
  A JavaScript string is a sequence of UTF-16 code units: \<^verbatim>\<open>s.length\<close> counts code units,
  \<^verbatim>\<open>===\<close> compares them one by one. String literals of the source are ASCII and are
  written through \<open>ascii\<close>.
\<close>

type_synonym jsstring = "16 word list"

definition ascii :: "string \<Rightarrow> jsstring" where
  "ascii s = map (\<lambda>c. of_nat (of_char c)) s"

text \<open>\<^verbatim>\<open>s.startsWith(pat)\<close> and \<^verbatim>\<open>s.includes(pat)\<close>.\<close>

definition startsWith :: "jsstring \<Rightarrow> jsstring \<Rightarrow> bool" where
  "startsWith s pat = (take (length pat) s = pat)"

fun str_includes :: "jsstring \<Rightarrow> jsstring \<Rightarrow> bool" where
  "str_includes [] pat = (pat = [])"
| "str_includes (x # xs) pat = (startsWith (x # xs) pat \<or> str_includes xs pat)"

text \<open>\<^verbatim>\<open>s.split(sep)\<close> for a one-unit separator (\<^verbatim>\<open>"".split("/")\<close> is \<^verbatim>\<open>[""]\<close>), and
  \<^verbatim>\<open>segs.join(sep)\<close>.\<close>

fun split_str :: "jsstring \<Rightarrow> 16 word \<Rightarrow> jsstring list" where
  "split_str [] sep = [[]]"
| "split_str (x # xs) sep =
     (if x = sep then [] # split_str xs sep
      else (case split_str xs sep of
              [] \<Rightarrow> [[x]]
            | seg # segs \<Rightarrow> (x # seg) # segs))"

fun join_str :: "jsstring list \<Rightarrow> jsstring \<Rightarrow> jsstring" where
  "join_str [] sep = []"
| "join_str [s] sep = s"
| "join_str (s # t # ss) sep = s @ sep @ join_str (t # ss) sep"

text \<open>A non-negative integer interpolated into a template literal: its decimal digits.\<close>

definition digit :: "nat \<Rightarrow> 16 word" where
  "digit d = 0x30 + of_nat d"

fun show_nat :: "nat \<Rightarrow> jsstring" where
  "show_nat n = (if n < 10 then [digit n] else show_nat (n div 10) @ [digit (n mod 10)])"

declare show_nat.simps [simp del]

text \<open>
  \<^verbatim>\<open>new Blob([content]).size\<close>: the number of bytes of the UTF-8 encoding of the string.
  A code unit below 0x80 takes one byte, below 0x800 two; a high surrogate followed by a
  low surrogate is one code point of four bytes; every other code unit takes three bytes
  (a lone surrogate is encoded as U+FFFD).
\<close>

definition is_high_surrogate :: "16 word \<Rightarrow> bool" where
  "is_high_surrogate u = (0xD800 \<le> u \<and> u \<le> 0xDBFF)"

definition is_low_surrogate :: "16 word \<Rightarrow> bool" where
  "is_low_surrogate u = (0xDC00 \<le> u \<and> u \<le> 0xDFFF)"

definition unit_size :: "16 word \<Rightarrow> nat" where
  "unit_size u = (if u < 0x80 then 1 else if u < 0x800 then 2 else 3)"

fun blob_size :: "jsstring \<Rightarrow> nat" where
  "blob_size [] = 0"
| "blob_size [u] = unit_size u"
| "blob_size (u # w # us) =
     (if is_high_surrogate u \<and> is_low_surrogate w then 4 + blob_size us
      else unit_size u + blob_size (w # us))"

subsection \<open>Maps\<close>

text \<open>
  A JavaScript \<^verbatim>\<open>Map\<close> keeps its entries in insertion order and holds each key once:
  \<^verbatim>\<open>set\<close> on a present key replaces the value where it stands, on a new key appends the
  entry; \<^verbatim>\<open>delete\<close> removes the entry if there is one.
\<close>

type_synonym ('k, 'v) jsmap = "('k \<times> 'v) list"

definition map_get :: "('k, 'v) jsmap \<Rightarrow> 'k \<Rightarrow> 'v option" where
  "map_get m k = map_of m k"

definition map_has :: "('k, 'v) jsmap \<Rightarrow> 'k \<Rightarrow> bool" where
  "map_has m k = (map_of m k \<noteq> None)"

definition map_set :: "('k, 'v) jsmap \<Rightarrow> 'k \<Rightarrow> 'v \<Rightarrow> ('k, 'v) jsmap" where
  "map_set m k v = AList.update k v m"

definition map_delete :: "('k, 'v) jsmap \<Rightarrow> 'k \<Rightarrow> ('k, 'v) jsmap" where
  "map_delete m k = AList.delete k m"

definition map_keys :: "('k, 'v) jsmap \<Rightarrow> 'k list" where
  "map_keys m = map fst m"

text \<open>\<^verbatim>\<open>new Set(xs)\<close>: the elements of \<open>xs\<close> in order of first occurrence.\<close>

definition new_Set :: "'a list \<Rightarrow> 'a list" where
  "new_Set xs = fold (\<lambda>x s. if x \<in> set s then s else s @ [x]) xs []"

subsection \<open>The store of Map objects\<close>

text \<open>
  A \<^verbatim>\<open>Map<string, string>\<close> is an object: two variables may hold the same one, and a
  \<^verbatim>\<open>set\<close> through either is seen through both. The store lists the Map objects that
  exist; a reference is an index into it. \<^verbatim>\<open>new Map(m)\<close> allocates a new object with
  the entries of \<open>m\<close>.
\<close>

type_synonym addr = nat
type_synonym filemap = "(jsstring, jsstring) jsmap"
type_synonym heap = "filemap list"

definition new_Map :: "filemap \<Rightarrow> heap \<Rightarrow> addr \<times> heap" where
  "new_Map m h = (length h, h @ [m])"

section \<open>Errors\<close>

text \<open>
  Every failure of the source is \<^verbatim>\<open>throw new Error(message)\<close>. The model has one
  constructor for each kind of failure, carrying what the message interpolates, and
  \<open>message\<close> renders the text of the message.
\<close>

datatype SessionState = CREATED | GENERATING | BUILDING | VALIDATING | READY | FAILED | FIXING

text \<open>The string value of each member of the \<^verbatim>\<open>SessionState\<close> enum.\<close>

fun state_name :: "SessionState \<Rightarrow> jsstring" where
  "state_name CREATED = ascii ''CREATED''"
| "state_name GENERATING = ascii ''GENERATING''"
| "state_name BUILDING = ascii ''BUILDING''"
| "state_name VALIDATING = ascii ''VALIDATING''"
| "state_name READY = ascii ''READY''"
| "state_name FAILED = ascii ''FAILED''"
| "state_name FIXING = ascii ''FIXING''"

datatype path_defect = PathTooLong nat | PathTraversal | AbsolutePath | NullByte

datatype error =
    InvalidPath path_defect
  | FileTooLarge nat
  | FileNotFound jsstring
  | SnapshotNotFound jsstring
  | VersionNotFound jsstring
  | SessionNotFound jsstring
  | InvalidTransition SessionState SessionState "SessionState list"
  | InvalidTimeValue

definition MAX_FILE_SIZE :: nat where
  "MAX_FILE_SIZE = 10 * 1024 * 1024"

definition MAX_PATH_LENGTH :: nat where
  "MAX_PATH_LENGTH = 4096"

fun message :: "error \<Rightarrow> jsstring" where
  "message (InvalidPath (PathTooLong n)) =
     ascii ''Path length '' @ show_nat n @ ascii '' exceeds maximum '' @ show_nat MAX_PATH_LENGTH"
| "message (InvalidPath PathTraversal) =
     ascii ''Path traversal detected: paths cannot contain \"..\"''"
| "message (InvalidPath AbsolutePath) = ascii ''Absolute paths are not allowed''"
| "message (InvalidPath NullByte) = ascii ''Null bytes are not allowed in paths''"
| "message (FileTooLarge n) =
     ascii ''File size '' @ show_nat n @ ascii '' exceeds maximum allowed size ''
       @ show_nat MAX_FILE_SIZE"
| "message (FileNotFound p) = ascii ''File not found: '' @ p"
| "message (SnapshotNotFound v) = ascii ''Snapshot not found: '' @ v"
| "message (VersionNotFound v) = ascii ''Version not found: '' @ v"
| "message (SessionNotFound s) = ascii ''Session not found: '' @ s"
| "message (InvalidTransition cur new valid) =
     ascii ''Invalid state transition from '' @ state_name cur @ ascii '' to ''
       @ state_name new @ ascii ''. Valid transitions: ''
       @ join_str (map state_name valid) (ascii '', '')"
| "message InvalidTimeValue = ascii ''Invalid time value''"

section \<open>VFS: the in-memory file store\<close>

text \<open>
  The two fields of the class: \<^verbatim>\<open>files\<close>, a reference to the live Map, and
  \<^verbatim>\<open>snapshots\<close>, a Map from version id to a reference to the retained Map.
\<close>

record VFS =
  files :: addr
  snapshots :: "(jsstring, addr) jsmap"

definition new_VFS :: "heap \<Rightarrow> heap \<times> VFS" where
  "new_VFS h = (let (a, h') = new_Map [] h in (h', \<lparr>files = a, snapshots = []\<rparr>))"

text \<open>The regular expression \<^verbatim>\<open>/^[a-zA-Z]:/\<close>.\<close>

definition is_letter :: "16 word \<Rightarrow> bool" where
  "is_letter u = ((0x41 \<le> u \<and> u \<le> 0x5A) \<or> (0x61 \<le> u \<and> u \<le> 0x7A))"

fun drive_prefix :: "jsstring \<Rightarrow> bool" where
  "drive_prefix (a # b # rest) = (is_letter a \<and> b = 0x3A)"
| "drive_prefix _ = False"

text \<open>\<^verbatim>\<open>validatePath\<close> returns nothing; \<open>None\<close> is the normal return, \<open>Some e\<close> the throw.\<close>

definition validatePath :: "jsstring \<Rightarrow> error option" where
  "validatePath p =
     (if length p > MAX_PATH_LENGTH then Some (InvalidPath (PathTooLong (length p)))
      else if str_includes p (ascii ''..'') then Some (InvalidPath PathTraversal)
      else if startsWith p (ascii ''/'') \<or> drive_prefix p then Some (InvalidPath AbsolutePath)
      else if str_includes p [0] then Some (InvalidPath NullByte)
      else None)"

definition normalizePath :: "jsstring \<Rightarrow> jsstring" where
  "normalizePath p = join_str (filter (\<lambda>segment. length segment > 0) (split_str p 0x2F)) (ascii ''/'')"

text \<open>
  Every operation takes the store of Map objects and the VFS object and returns them as
  the call leaves them, next to what the call returns or throws. The method
  \<^verbatim>\<open>write\<close> is \<open>write_file\<close> here and \<^verbatim>\<open>list\<close> is \<open>list_paths\<close>.
\<close>

definition write_file :: "jsstring \<Rightarrow> jsstring \<Rightarrow> heap \<Rightarrow> VFS \<Rightarrow> (error + unit) \<times> heap \<times> VFS" where
  "write_file p content h vfs =
     (case validatePath p of
        Some e \<Rightarrow> (Inl e, h, vfs)
      | None \<Rightarrow>
          (let contentSize = blob_size content in
           if contentSize > MAX_FILE_SIZE then (Inl (FileTooLarge contentSize), h, vfs)
           else
             (let normalizedPath = normalizePath p in
              (Inr (), h[files vfs := map_set (h ! files vfs) normalizedPath content], vfs))))"

definition read :: "jsstring \<Rightarrow> heap \<Rightarrow> VFS \<Rightarrow> error + jsstring" where
  "read p h vfs =
     (let normalizedPath = normalizePath p in
      if \<not> map_has (h ! files vfs) normalizedPath then Inl (FileNotFound normalizedPath)
      else (case map_get (h ! files vfs) normalizedPath of
              Some content \<Rightarrow> Inr content
            | None \<Rightarrow> Inl (FileNotFound normalizedPath)))"

definition exists :: "jsstring \<Rightarrow> heap \<Rightarrow> VFS \<Rightarrow> bool" where
  "exists p h vfs = (let normalizedPath = normalizePath p in map_has (h ! files vfs) normalizedPath)"

definition delete :: "jsstring \<Rightarrow> heap \<Rightarrow> VFS \<Rightarrow> (error + unit) \<times> heap \<times> VFS" where
  "delete p h vfs =
     (let normalizedPath = normalizePath p in
      (Inr (), h[files vfs := map_delete (h ! files vfs) normalizedPath], vfs))"

definition list_paths :: "heap \<Rightarrow> VFS \<Rightarrow> jsstring list" where
  "list_paths h vfs = map_keys (h ! files vfs)"

definition getAllFiles :: "heap \<Rightarrow> VFS \<Rightarrow> addr \<times> heap" where
  "getAllFiles h vfs = new_Map (h ! files vfs) h"

text \<open>
  \<^verbatim>\<open>generateVersionId\<close> reads the clock and the random generator; \<open>now\<close> is
  \<^verbatim>\<open>Date.now()\<close> and \<open>rnd\<close> is \<^verbatim>\<open>Math.random().toString(36).substring(2, 11)\<close>.
\<close>

definition generateVersionId :: "nat \<Rightarrow> jsstring \<Rightarrow> jsstring" where
  "generateVersionId now rnd = ascii ''v'' @ show_nat now @ ascii ''-'' @ rnd"

definition snapshot :: "nat \<Rightarrow> jsstring \<Rightarrow> heap \<Rightarrow> VFS \<Rightarrow> jsstring \<times> heap \<times> VFS" where
  "snapshot now rnd h vfs =
     (let versionId = generateVersionId now rnd;
          (a, h') = new_Map (h ! files vfs) h
      in (versionId, h', vfs\<lparr>snapshots := map_set (snapshots vfs) versionId a\<rparr>))"

definition restore :: "jsstring \<Rightarrow> heap \<Rightarrow> VFS \<Rightarrow> (error + unit) \<times> heap \<times> VFS" where
  "restore v h vfs =
     (if \<not> map_has (snapshots vfs) v then (Inl (SnapshotNotFound v), h, vfs)
      else (case map_get (snapshots vfs) v of
              None \<Rightarrow> (Inl (SnapshotNotFound v), h, vfs)
            | Some s \<Rightarrow> (let (a, h') = new_Map (h ! s) h in (Inr (), h', vfs\<lparr>files := a\<rparr>))))"

datatype diff_type = added | modified | deleted

record FileDiff =
  path :: jsstring
  type :: diff_type
  oldContent :: "jsstring option"
  newContent :: "jsstring option"

text \<open>
  The body of the loop of \<^verbatim>\<open>diff\<close> for one path: the entries it pushes. \<open>None\<close> is
  \<^verbatim>\<open>undefined\<close>, what \<^verbatim>\<open>Map.get\<close> returns for a missing key.
\<close>

definition diff_entry :: "filemap \<Rightarrow> filemap \<Rightarrow> jsstring \<Rightarrow> FileDiff list" where
  "diff_entry snapshot1 snapshot2 p =
     (let content1 = map_get snapshot1 p;
          content2 = map_get snapshot2 p
      in if content1 = None \<and> content2 \<noteq> None then
           [\<lparr>path = p, type = added, oldContent = None, newContent = content2\<rparr>]
         else if content1 \<noteq> None \<and> content2 = None then
           [\<lparr>path = p, type = deleted, oldContent = content1, newContent = None\<rparr>]
         else if content1 \<noteq> content2 then
           [\<lparr>path = p, type = modified, oldContent = content1, newContent = content2\<rparr>]
         else [])"

definition diff_maps :: "filemap \<Rightarrow> filemap \<Rightarrow> FileDiff list" where
  "diff_maps snapshot1 snapshot2 =
     (let allPaths = new_Set (map_keys snapshot1 @ map_keys snapshot2)
      in fold (\<lambda>p diffs. diffs @ diff_entry snapshot1 snapshot2 p) allPaths [])"

definition diff :: "jsstring \<Rightarrow> jsstring \<Rightarrow> heap \<Rightarrow> VFS \<Rightarrow> error + FileDiff list" where
  "diff v1 v2 h vfs =
     (case map_get (snapshots vfs) v1 of
        None \<Rightarrow> Inl (SnapshotNotFound v1)
      | Some s1 \<Rightarrow>
          (case map_get (snapshots vfs) v2 of
             None \<Rightarrow> Inl (SnapshotNotFound v2)
           | Some s2 \<Rightarrow> Inr (diff_maps (h ! s1) (h ! s2))))"

definition clear :: "heap \<Rightarrow> VFS \<Rightarrow> heap \<times> VFS" where
  "clear h vfs = (h[files vfs := []], vfs\<lparr>snapshots := []\<rparr>)"

definition getSnapshot :: "jsstring \<Rightarrow> VFS \<Rightarrow> addr option" where
  "getSnapshot v vfs = map_get (snapshots vfs) v"


text \<open>
  A caller's sequence of \<^verbatim>\<open>write\<close> and \<^verbatim>\<open>delete\<close> calls on one store, each call
  running whether or not an earlier one threw.
\<close>

datatype vfs_op = Write jsstring jsstring | Delete jsstring

fun apply_op :: "vfs_op \<Rightarrow> heap \<times> VFS \<Rightarrow> heap \<times> VFS" where
  "apply_op (Write p content) (h, vfs) = snd (write_file p content h vfs)"
| "apply_op (Delete p) (h, vfs) = snd (delete p h vfs)"

definition run_ops :: "vfs_op list \<Rightarrow> heap \<times> VFS \<Rightarrow> heap \<times> VFS" where
  "run_ops ops s = fold apply_op ops s"

text \<open>
  What holds of a VFS object and the store it lives in, from the constructor on: the live
  Map and every retained Map exist, and no retained Map is the live one.
\<close>

definition vfs_wf :: "heap \<Rightarrow> VFS \<Rightarrow> bool" where
  "vfs_wf h vfs =
     (files vfs < length h \<and> (\<forall>(v, s) \<in> set (snapshots vfs). s < length h \<and> s \<noteq> files vfs))"

section \<open>Dates\<close>

text \<open>
  A \<^verbatim>\<open>Date\<close> holds a time value, an integral number of milliseconds since the epoch
  of magnitude at most 8.64e15, or is invalid (\<open>None\<close>).
\<close>

type_synonym Date = "int option"

text \<open>
  The day and year arithmetic of the language: \<open>Day\<close>, \<open>DayFromYear\<close>,
  \<open>DaysInYear\<close> as the standard gives them, and \<open>YearFromTime\<close>, the largest year
  whose first day is not after the time, found by searching up from 1970 or down from 1969.
\<close>

definition msPerDay :: int where
  "msPerDay = 86400000"

definition Day :: "int \<Rightarrow> int" where
  "Day t = t div msPerDay"

definition TimeWithinDay :: "int \<Rightarrow> int" where
  "TimeWithinDay t = t mod msPerDay"

definition DayFromYear :: "int \<Rightarrow> int" where
  "DayFromYear y = 365 * (y - 1970) + (y - 1969) div 4 - (y - 1901) div 100 + (y - 1601) div 400"

definition DaysInYear :: "int \<Rightarrow> int" where
  "DaysInYear y =
     (if y mod 4 \<noteq> 0 then 365 else if y mod 100 \<noteq> 0 then 366
      else if y mod 400 \<noteq> 0 then 365 else 366)"

function year_up :: "int \<Rightarrow> int \<Rightarrow> int" where
  "year_up day y = (if DayFromYear (y + 1) \<le> day then year_up day (y + 1) else y)"
  by pat_completeness auto
termination
proof (relation "measure (\<lambda>(day, y). nat (day - DayFromYear y))")
  show "wf (measure (\<lambda>(day, y). nat (day - DayFromYear y)))" by simp
next
  fix day y :: int
  assume le: "DayFromYear (y + 1) \<le> day"
  have a: "(y - 1969) div 4 \<le> (y - 1968) div 4" by (rule zdiv_mono1) simp_all
  have "(y - 1900) div 100 \<le> (y - 1901 + 100) div 100" by (rule zdiv_mono1) simp_all
  then have b: "(y - 1900) div 100 \<le> (y - 1901) div 100 + 1" by simp
  have c: "(y - 1601) div 400 \<le> (y - 1600) div 400" by (rule zdiv_mono1) simp_all
  have "DayFromYear y < DayFromYear (y + 1)"
    using a b c by (simp add: DayFromYear_def)
  with le show "((day, y + 1), (day, y)) \<in> measure (\<lambda>(day, y). nat (day - DayFromYear y))"
    by simp
qed

function year_down :: "int \<Rightarrow> int \<Rightarrow> int" where
  "year_down day y = (if day < DayFromYear y then year_down day (y - 1) else y)"
  by pat_completeness auto
termination
proof (relation "measure (\<lambda>(day, y). nat (DayFromYear y - day))")
  show "wf (measure (\<lambda>(day, y). nat (DayFromYear y - day)))" by simp
next
  fix day y :: int
  assume lt: "day < DayFromYear y"
  have a: "(y - 1970) div 4 \<le> (y - 1969) div 4" by (rule zdiv_mono1) simp_all
  have "(y - 1901) div 100 \<le> (y - 1902 + 100) div 100" by (rule zdiv_mono1) simp_all
  then have b: "(y - 1901) div 100 \<le> (y - 1902) div 100 + 1" by simp
  have c: "(y - 1602) div 400 \<le> (y - 1601) div 400" by (rule zdiv_mono1) simp_all
  have "DayFromYear (y - 1) < DayFromYear y"
    using a b c by (simp add: DayFromYear_def)
  with lt show "((day, y - 1), (day, y)) \<in> measure (\<lambda>(day, y). nat (DayFromYear y - day))"
    by simp
qed

declare year_up.simps [simp del] year_down.simps [simp del]

definition YearFromTime :: "int \<Rightarrow> int" where
  "YearFromTime t = (if 0 \<le> Day t then year_up (Day t) 1970 else year_down (Day t) 1969)"

definition DayWithinYear :: "int \<Rightarrow> int" where
  "DayWithinYear t = Day t - DayFromYear (YearFromTime t)"

definition InLeapYear :: "int \<Rightarrow> int" where
  "InLeapYear t = (if DaysInYear (YearFromTime t) = 366 then 1 else 0)"


text \<open>
  \<open>month_start leap m\<close> is the day within the year on which month \<open>m\<close> (0 to 11)
  starts; \<open>MonthFromTime\<close> and \<open>DateFromTime\<close> are the month and the day of the month.
\<close>

definition month_start :: "int \<Rightarrow> int \<Rightarrow> int" where
  "month_start leap m =
     (if m = 0 then 0 else if m = 1 then 31 else if m = 2 then 59 + leap
      else if m = 3 then 90 + leap else if m = 4 then 120 + leap
      else if m = 5 then 151 + leap else if m = 6 then 181 + leap
      else if m = 7 then 212 + leap else if m = 8 then 243 + leap
      else if m = 9 then 273 + leap else if m = 10 then 304 + leap
      else 334 + leap)"

definition MonthFromTime :: "int \<Rightarrow> int" where
  "MonthFromTime t =
     (let d = DayWithinYear t; leap = InLeapYear t
      in if d < 31 then 0 else if d < 59 + leap then 1 else if d < 90 + leap then 2
         else if d < 120 + leap then 3 else if d < 151 + leap then 4
         else if d < 181 + leap then 5 else if d < 212 + leap then 6
         else if d < 243 + leap then 7 else if d < 273 + leap then 8
         else if d < 304 + leap then 9 else if d < 334 + leap then 10 else 11)"

definition DateFromTime :: "int \<Rightarrow> int" where
  "DateFromTime t = DayWithinYear t - month_start (InLeapYear t) (MonthFromTime t) + 1"

definition HourFromTime :: "int \<Rightarrow> int" where
  "HourFromTime t = (t div 3600000) mod 24"

definition MinFromTime :: "int \<Rightarrow> int" where
  "MinFromTime t = (t div 60000) mod 60"

definition SecFromTime :: "int \<Rightarrow> int" where
  "SecFromTime t = (t div 1000) mod 60"

definition msFromTime :: "int \<Rightarrow> int" where
  "msFromTime t = t mod 1000"

definition MakeTime :: "int \<Rightarrow> int \<Rightarrow> int \<Rightarrow> int \<Rightarrow> int" where
  "MakeTime hour minute sec ms = hour * 3600000 + minute * 60000 + sec * 1000 + ms"

definition MakeDay :: "int \<Rightarrow> int \<Rightarrow> int \<Rightarrow> int" where
  "MakeDay year month date =
     (let ym = year + month div 12;
          mn = month mod 12
      in DayFromYear ym + month_start (if DaysInYear ym = 366 then 1 else 0) mn + date - 1)"

definition MakeDate :: "int \<Rightarrow> int \<Rightarrow> int" where
  "MakeDate day time = day * msPerDay + time"

definition TimeClip :: "int \<Rightarrow> Date" where
  "TimeClip t = (if \<bar>t\<bar> > 8640000000000000 then None else Some t)"

text \<open>
  \<^verbatim>\<open>toISOString\<close> renders \<^verbatim>\<open>YYYY-MM-DDTHH:mm:ss.sssZ\<close>, the year with a sign and six
  digits when it is outside 0 to 9999, and throws a RangeError on an invalid Date.
\<close>

definition pad2 :: "nat \<Rightarrow> jsstring" where
  "pad2 n = [digit (n div 10 mod 10), digit (n mod 10)]"

definition pad3 :: "nat \<Rightarrow> jsstring" where
  "pad3 n = [digit (n div 100 mod 10), digit (n div 10 mod 10), digit (n mod 10)]"

definition pad4 :: "nat \<Rightarrow> jsstring" where
  "pad4 n = [digit (n div 1000 mod 10), digit (n div 100 mod 10), digit (n div 10 mod 10),
             digit (n mod 10)]"

definition pad6 :: "nat \<Rightarrow> jsstring" where
  "pad6 n = [digit (n div 100000 mod 10), digit (n div 10000 mod 10), digit (n div 1000 mod 10),
             digit (n div 100 mod 10), digit (n div 10 mod 10), digit (n mod 10)]"

definition year_string :: "int \<Rightarrow> jsstring" where
  "year_string y =
     (if 0 \<le> y \<and> y \<le> 9999 then pad4 (nat y)
      else (if y < 0 then [0x2D] else [0x2B]) @ pad6 (nat \<bar>y\<bar>))"

definition toISOString :: "Date \<Rightarrow> error + jsstring" where
  "toISOString d =
     (case d of
        None \<Rightarrow> Inl InvalidTimeValue
      | Some t \<Rightarrow>
          Inr (year_string (YearFromTime t) @ [0x2D] @ pad2 (nat (MonthFromTime t + 1))
               @ [0x2D] @ pad2 (nat (DateFromTime t))
               @ [0x54] @ pad2 (nat (HourFromTime t))
               @ [0x3A] @ pad2 (nat (MinFromTime t))
               @ [0x3A] @ pad2 (nat (SecFromTime t))
               @ [0x2E] @ pad3 (nat (msFromTime t)) @ [0x5A]))"

text \<open>
  \<^verbatim>\<open>new Date(s)\<close> for a string: the model reads the complete UTC form of the date-time
  string format, the one \<^verbatim>\<open>toISOString\<close> writes, checks the ranges of the fields and gives
  the invalid Date for everything else (the shorter forms and the formats an engine may
  accept beyond the standard are not modelled).
\<close>

definition digit_val :: "16 word \<Rightarrow> nat option" where
  "digit_val u = (if 0x30 \<le> u \<and> u \<le> 0x39 then Some (unat u - 48) else None)"

fun number_from :: "nat \<Rightarrow> jsstring \<Rightarrow> nat option" where
  "number_from acc [] = Some acc"
| "number_from acc (u # us) =
     (case digit_val u of None \<Rightarrow> None | Some d \<Rightarrow> number_from (10 * acc + d) us)"

definition number_of :: "jsstring \<Rightarrow> nat option" where
  "number_of s = (if s = [] then None else number_from 0 s)"

definition split_year :: "jsstring \<Rightarrow> (int \<times> jsstring \<times> jsstring) option" where
  "split_year s =
     (case s of
        [] \<Rightarrow> None
      | u # us \<Rightarrow>
          if u = 0x2B then (if length us < 6 then None else Some (1, take 6 us, drop 6 us))
          else if u = 0x2D then (if length us < 6 then None else Some (- 1, take 6 us, drop 6 us))
          else (if length s < 4 then None else Some (1, take 4 s, drop 4 s)))"

definition parse_date :: "jsstring \<Rightarrow> Date" where
  "parse_date s =
     (case split_year s of
        None \<Rightarrow> None
      | Some (sg, ys, rest) \<Rightarrow>
          (case rest of
             [c0, m1, m2, c1, d1, d2, cT, h1, h2, c2, n1, n2, c3, s1, s2, c4, f1, f2, f3, cZ] \<Rightarrow>
               if c0 = 0x2D \<and> c1 = 0x2D \<and> cT = 0x54 \<and> c2 = 0x3A \<and> c3 = 0x3A \<and> c4 = 0x2E
                  \<and> cZ = 0x5A
               then
                 (case (number_of ys, number_of [m1, m2], number_of [d1, d2], number_of [h1, h2],
                        number_of [n1, n2], number_of [s1, s2], number_of [f1, f2, f3]) of
                    (Some y, Some mo, Some dd, Some hh, Some mi, Some ss, Some ms) \<Rightarrow>
                      if 1 \<le> mo \<and> mo \<le> 12 \<and> 1 \<le> dd \<and> dd \<le> 31 \<and> hh \<le> 24 \<and> mi \<le> 59
                         \<and> ss \<le> 59 \<and> (hh = 24 \<longrightarrow> mi = 0 \<and> ss = 0 \<and> ms = 0)
                         \<and> \<not> (sg = - 1 \<and> y = 0)
                      then TimeClip (MakeDate (MakeDay (sg * int y) (int mo - 1) (int dd))
                                              (MakeTime (int hh) (int mi) (int ss) (int ms)))
                      else None
                  | _ \<Rightarrow> None)
               else None
           | _ \<Rightarrow> None))"

section \<open>VersionManager: the registry of versions\<close>

datatype VersionStatus = Status_BUILDING | Status_VALID | Status_FAILED

text \<open>
  A Version is an object as well: \<open>vfiles\<close> is the reference held in its field
  \<^verbatim>\<open>files\<close>, \<open>vid\<close> is its field \<^verbatim>\<open>id\<close>, and the store of Version objects lists
  the ones that exist.
\<close>

record Version =
  vid :: jsstring
  timestamp :: Date
  vfiles :: addr
  status :: VersionStatus
  errorLog :: "jsstring option"

type_synonym vheap = "Version list"

record VersionManager =
  versions :: "(jsstring, addr) jsmap"
  sessionVersions :: "(jsstring, jsstring list) jsmap"

text \<open>
  \<open>idnow\<close> and \<open>rnd\<close> are what \<^verbatim>\<open>generateVersionId\<close> reads (the class has its
  own copy of the method, the same as the one of VFS), \<open>now\<close> is the time value of
  \<^verbatim>\<open>new Date()\<close>. The call returns the reference to the new Version object.
\<close>

definition createVersion ::
  "jsstring \<Rightarrow> addr \<Rightarrow> VersionStatus \<Rightarrow> nat \<Rightarrow> jsstring \<Rightarrow> int \<Rightarrow> heap \<Rightarrow> vheap \<Rightarrow> VersionManager
     \<Rightarrow> addr \<times> heap \<times> vheap \<times> VersionManager" where
  "createVersion sessionId fs st idnow rnd now h vh vm =
     (let versionId = generateVersionId idnow rnd;
          (a, h') = new_Map (h ! fs) h;
          version = \<lparr>vid = versionId, timestamp = Some now, vfiles = a, status = st,
                     errorLog = None\<rparr>;
          r = length vh;
          vh' = vh @ [version];
          versions' = map_set (versions vm) versionId r;
          sv = (if \<not> map_has (sessionVersions vm) sessionId
                then map_set (sessionVersions vm) sessionId []
                else sessionVersions vm);
          sv' = (case map_get sv sessionId of
                   Some ids \<Rightarrow> map_set sv sessionId (ids @ [versionId])
                 | None \<Rightarrow> sv)
      in (r, h', vh', vm\<lparr>versions := versions', sessionVersions := sv'\<rparr>))"

definition getVersion :: "jsstring \<Rightarrow> VersionManager \<Rightarrow> addr option" where
  "getVersion versionId vm = map_get (versions vm) versionId"

definition updateVersionStatus ::
  "jsstring \<Rightarrow> VersionStatus \<Rightarrow> jsstring option \<Rightarrow> int \<Rightarrow> vheap \<Rightarrow> VersionManager
     \<Rightarrow> (error + unit) \<times> vheap \<times> VersionManager" where
  "updateVersionStatus versionId st elog now vh vm =
     (case map_get (versions vm) versionId of
        None \<Rightarrow> (Inl (VersionNotFound versionId), vh, vm)
      | Some r \<Rightarrow>
          (let version = vh ! r;
               updatedVersion = version\<lparr>status := st, errorLog := elog, timestamp := Some now\<rparr>
           in (Inr (), vh @ [updatedVersion],
               vm\<lparr>versions := map_set (versions vm) versionId (length vh)\<rparr>)))"

subsection \<open>Serialization\<close>

text \<open>
  A plain object with string values: its own properties in the order in which
  \<^verbatim>\<open>Object.entries\<close> lists them, the array indices (canonical numeric strings below
  4294967295) in ascending numeric order first, then the other keys in the order of their
  creation. Defining a property that exists replaces its value where it stands.
\<close>

type_synonym jsobject = "(jsstring \<times> jsstring) list"

definition array_index :: "jsstring \<Rightarrow> nat option" where
  "array_index k =
     (case number_of k of
        None \<Rightarrow> None
      | Some n \<Rightarrow> if show_nat n = k \<and> n < 4294967295 then Some n else None)"

fun insert_index :: "nat \<Rightarrow> jsstring \<Rightarrow> jsstring \<Rightarrow> jsobject \<Rightarrow> jsobject" where
  "insert_index n k v [] = [(k, v)]"
| "insert_index n k v ((k', v') # ps) =
     (case array_index k' of
        Some n' \<Rightarrow> if n' < n then (k', v') # insert_index n k v ps else (k, v) # (k', v') # ps
      | None \<Rightarrow> (k, v) # (k', v') # ps)"

definition define_property :: "jsobject \<Rightarrow> jsstring \<Rightarrow> jsstring \<Rightarrow> jsobject" where
  "define_property ob k v =
     (if map_has ob k then AList.update k v ob
      else (case array_index k of
              Some n \<Rightarrow> insert_index n k v ob
            | None \<Rightarrow> ob @ [(k, v)]))"

definition Object_fromEntries :: "filemap \<Rightarrow> jsobject" where
  "Object_fromEntries m = fold (\<lambda>(k, v) ob. define_property ob k v) m []"

definition Object_entries :: "jsobject \<Rightarrow> (jsstring \<times> jsstring) list" where
  "Object_entries ob = ob"

text \<open>The entries of the Map that \<^verbatim>\<open>new Map(entries)\<close> builds.\<close>

definition Map_of_entries :: "(jsstring \<times> jsstring) list \<Rightarrow> filemap" where
  "Map_of_entries es = fold (\<lambda>(k, v) m. map_set m k v) es []"

record SerializedVersion =
  data_id :: jsstring
  data_timestamp :: jsstring
  data_files :: jsobject
  data_status :: VersionStatus
  data_errorLog :: "jsstring option"

definition serializeVersion :: "Version \<Rightarrow> heap \<Rightarrow> error + SerializedVersion" where
  "serializeVersion version h =
     (case toISOString (timestamp version) of
        Inl e \<Rightarrow> Inl e
      | Inr isoString \<Rightarrow>
          Inr \<lparr>data_id = vid version, data_timestamp = isoString,
               data_files = Object_fromEntries (h ! vfiles version),
               data_status = status version, data_errorLog = errorLog version\<rparr>)"

definition deserializeVersion :: "SerializedVersion \<Rightarrow> heap \<Rightarrow> Version \<times> heap" where
  "deserializeVersion data h =
     (let (a, h') = new_Map (Map_of_entries (Object_entries (data_files data))) h
      in (\<lparr>vid = data_id data, timestamp = parse_date (data_timestamp data), vfiles = a,
           status = data_status data, errorLog = data_errorLog data\<rparr>, h'))"

text \<open>
  Mutations of a Map object by whoever holds a reference to it: \<^verbatim>\<open>m.set(k, v)\<close> and
  \<^verbatim>\<open>m.delete(k)\<close> on the object at an address.
\<close>

datatype map_op = MapSet addr jsstring jsstring | MapDelete addr jsstring

fun target :: "map_op \<Rightarrow> addr" where
  "target (MapSet a k v) = a"
| "target (MapDelete a k) = a"

fun mutate :: "map_op \<Rightarrow> heap \<Rightarrow> heap" where
  "mutate (MapSet a k v) h = h[a := map_set (h ! a) k v]"
| "mutate (MapDelete a k) h = h[a := map_delete (h ! a) k]"

section \<open>SessionManager: the session lifecycle\<close>

record 'm Session =
  sid :: jsstring
  userId :: jsstring
  state :: SessionState
  currentVersion :: "jsstring option"
  lastValidVersion :: "jsstring option"
  createdAt :: int
  expiresAt :: int
  metadata :: "'m option"

record 'm SessionManager =
  sessions :: "(jsstring, 'm Session) jsmap"
  sessionLocks :: "(jsstring, bool) jsmap"

fun VALID_TRANSITIONS :: "SessionState \<Rightarrow> SessionState list" where
  "VALID_TRANSITIONS CREATED = [GENERATING, FAILED]"
| "VALID_TRANSITIONS GENERATING = [BUILDING, FAILED]"
| "VALID_TRANSITIONS BUILDING = [VALIDATING, FAILED]"
| "VALID_TRANSITIONS VALIDATING = [READY, FAILED]"
| "VALID_TRANSITIONS READY = [GENERATING, BUILDING, FIXING]"
| "VALID_TRANSITIONS FAILED = [FIXING, GENERATING]"
| "VALID_TRANSITIONS FIXING = [BUILDING, FAILED]"

definition generateSessionId :: "nat \<Rightarrow> jsstring \<Rightarrow> jsstring" where
  "generateSessionId now rnd = ascii ''session-'' @ show_nat now @ ascii ''-'' @ rnd"

definition createSession ::
  "jsstring option \<Rightarrow> 'm option \<Rightarrow> nat \<Rightarrow> jsstring \<Rightarrow> int \<Rightarrow> 'm SessionManager
     \<Rightarrow> 'm Session \<times> 'm SessionManager" where
  "createSession user md idnow rnd now sm =
     (let sessionId = generateSessionId idnow rnd;
          expires = now + 24 * 60 * 60 * 1000;
          session = \<lparr>sid = sessionId,
                     userId = (case user of None \<Rightarrow> ascii ''anonymous'' | Some u \<Rightarrow> u),
                     state = CREATED, currentVersion = None, lastValidVersion = None,
                     createdAt = now, expiresAt = expires, metadata = md\<rparr>
      in (session, \<lparr>sessions = map_set (sessions sm) sessionId session,
                    sessionLocks = map_set (sessionLocks sm) sessionId False\<rparr>))"

definition deleteSession :: "jsstring \<Rightarrow> 'm SessionManager \<Rightarrow> 'm SessionManager" where
  "deleteSession sessionId sm =
     \<lparr>sessions = map_delete (sessions sm) sessionId,
      sessionLocks = map_delete (sessionLocks sm) sessionId\<rparr>"

text \<open>\<open>now\<close> is the time value of the \<^verbatim>\<open>new Date()\<close> that \<^verbatim>\<open>getSession\<close> compares with.\<close>

definition getSession ::
  "jsstring \<Rightarrow> int \<Rightarrow> 'm SessionManager \<Rightarrow> 'm Session option \<times> 'm SessionManager" where
  "getSession sessionId now sm =
     (case map_get (sessions sm) sessionId of
        Some session \<Rightarrow>
          (if expiresAt session < now then (None, deleteSession sessionId sm)
           else (Some session, sm))
      | None \<Rightarrow> (None, sm))"

text \<open>
  The truth value of a \<^verbatim>\<open>string | null\<close> in a condition: \<^verbatim>\<open>null\<close> and the empty
  string are falsy.
\<close>

fun truthy :: "jsstring option \<Rightarrow> bool" where
  "truthy None = False"
| "truthy (Some s) = (s \<noteq> [])"

text \<open>
  \<^verbatim>\<open>transitionState\<close> reads no clock. The line it prints to the console when
  \<open>log\<close> is not empty is not part of the state of the manager and is left out.
\<close>

definition transitionState ::
  "jsstring \<Rightarrow> SessionState \<Rightarrow> jsstring \<Rightarrow> 'm SessionManager
     \<Rightarrow> (error + unit) \<times> 'm SessionManager" where
  "transitionState sessionId newState log sm =
     (case map_get (sessions sm) sessionId of
        None \<Rightarrow> (Inl (SessionNotFound sessionId), sm)
      | Some session \<Rightarrow>
          (let validNextStates = VALID_TRANSITIONS (state session) in
           if newState \<notin> set validNextStates
           then (Inl (InvalidTransition (state session) newState validNextStates), sm)
           else
             (let session1 = session\<lparr>state := newState\<rparr>;
                  session2 = (if newState = READY \<and> truthy (currentVersion session1)
                              then session1\<lparr>lastValidVersion := currentVersion session1\<rparr>
                              else session1)
              in (Inr (), sm\<lparr>sessions := map_set (sessions sm) sessionId session2\<rparr>))))"

definition setCurrentVersion ::
  "jsstring \<Rightarrow> jsstring \<Rightarrow> 'm SessionManager \<Rightarrow> (error + unit) \<times> 'm SessionManager" where
  "setCurrentVersion sessionId versionId sm =
     (case map_get (sessions sm) sessionId of
        None \<Rightarrow> (Inl (SessionNotFound sessionId), sm)
      | Some session \<Rightarrow>
          (Inr (), sm\<lparr>sessions := map_set (sessions sm) sessionId
                                     (session\<lparr>currentVersion := Some versionId\<rparr>)\<rparr>))"

definition lockSession :: "jsstring \<Rightarrow> 'm SessionManager \<Rightarrow> bool \<times> 'm SessionManager" where
  "lockSession sessionId sm =
     (let isLocked = map_get (sessionLocks sm) sessionId in
      if isLocked = Some True then (False, sm)
      else (True, sm\<lparr>sessionLocks := map_set (sessionLocks sm) sessionId True\<rparr>))"

definition unlockSession :: "jsstring \<Rightarrow> 'm SessionManager \<Rightarrow> 'm SessionManager" where
  "unlockSession sessionId sm = sm\<lparr>sessionLocks := map_set (sessionLocks sm) sessionId False\<rparr>"

definition isLocked :: "jsstring \<Rightarrow> 'm SessionManager \<Rightarrow> bool" where
  "isLocked sessionId sm =
     (case map_get (sessionLocks sm) sessionId of Some b \<Rightarrow> b | None \<Rightarrow> False)"

section \<open>Properties of the model\<close>

subsection \<open>Strings and paths\<close>

lemma startsWith_iff: "startsWith s pat \<longleftrightarrow> (\<exists>post. s = pat @ post)"
  unfolding startsWith_def
  by (metis append_eq_conv_conj append_take_drop_id)

lemma str_includes_iff: "str_includes s pat \<longleftrightarrow> (\<exists>pre post. s = pre @ pat @ post)"
proof (induction s)
  case Nil
  then show ?case by auto
next
  case (Cons x xs)
  show ?case
  proof
    assume "str_includes (x # xs) pat"
    then consider "startsWith (x # xs) pat" | "str_includes xs pat" by auto
    then show "\<exists>pre post. x # xs = pre @ pat @ post"
    proof cases
      case 1
      then obtain post where "x # xs = pat @ post" by (auto simp: startsWith_iff)
      then have "x # xs = [] @ pat @ post" by simp
      then show ?thesis by blast
    next
      case 2
      then obtain pre post where "xs = pre @ pat @ post" using Cons.IH by blast
      then have "x # xs = (x # pre) @ pat @ post" by simp
      then show ?thesis by blast
    qed
  next
    assume "\<exists>pre post. x # xs = pre @ pat @ post"
    then obtain pre post where e: "x # xs = pre @ pat @ post" by blast
    show "str_includes (x # xs) pat"
    proof (cases pre)
      case Nil
      with e have "startsWith (x # xs) pat" by (auto simp: startsWith_iff)
      then show ?thesis by simp
    next
      case (Cons y ys)
      with e have "xs = ys @ pat @ post" by simp
      then have "str_includes xs pat" using Cons.IH by blast
      then show ?thesis by simp
    qed
  qed
qed

lemma blob_size_replicate:
  assumes "u < 0x80"
  shows "blob_size (replicate n u) = n"
proof (induction n)
  case 0
  then show ?case by simp
next
  case (Suc n)
  have nh: "\<not> is_high_surrogate u"
  proof
    assume "is_high_surrogate u"
    then have "(0xD800::16 word) \<le> u" by (simp add: is_high_surrogate_def)
    then have "(0xD800::16 word) < 0x80" using assms by (rule le_less_trans)
    then show False by simp
  qed
  show ?case
  proof (cases n)
    case 0
    then show ?thesis using assms by (simp add: unit_size_def)
  next
    case (Suc m)
    then have "replicate (Suc n) u = u # u # replicate m u" by simp
    then have "blob_size (replicate (Suc n) u) = unit_size u + blob_size (u # replicate m u)"
      using nh by simp
    also have "\<dots> = 1 + blob_size (replicate n u)" using assms Suc by (simp add: unit_size_def)
    finally show ?thesis using Suc.IH by simp
  qed
qed

lemma validatePath_None_iff:
  "validatePath p = None \<longleftrightarrow>
     \<not> (length p > 4096 \<or> str_includes p (ascii ''..'') \<or> startsWith p (ascii ''/'')
        \<or> drive_prefix p \<or> str_includes p [0])"
  by (simp add: validatePath_def MAX_PATH_LENGTH_def)

lemma validatePath_Some:
  "validatePath p = Some e \<Longrightarrow> \<exists>d. e = InvalidPath d"
  by (auto simp: validatePath_def split: if_splits)

lemma map_get_map_set: "map_get (map_set m k v) k' = (if k' = k then Some v else map_get m k')"
  by (simp add: map_get_def map_set_def update_conv')

lemma map_delete_absent: "\<not> map_has m k \<Longrightarrow> map_delete m k = m"
  unfolding map_has_def map_delete_def
  by (induction m) (auto split: if_splits)

text \<open>
  Claim C6. A path that is longer than 4096 code units, contains \<^verbatim>\<open>..\<close>, starts with
  \<^verbatim>\<open>/\<close>, starts with a drive letter and a colon, or contains a null code unit makes
  \<^verbatim>\<open>write\<close> throw an InvalidPath error and leaves the store as it was. For a path with
  none of these defects, content of more than 10 MiB (in UTF-8 bytes) makes \<^verbatim>\<open>write\<close>
  throw FileTooLarge and leaves the store as it was, and content of exactly 10 MiB is
  stored under the normalized path, where \<^verbatim>\<open>read\<close> finds it.
\<close>

theorem write_file_validation:
  "((length p > 4096 \<or> str_includes p (ascii ''..'') \<or> startsWith p (ascii ''/'')
       \<or> drive_prefix p \<or> str_includes p [0])
      \<longrightarrow> (\<exists>d. write_file p c h vfs = (Inl (InvalidPath d), h, vfs)))
   \<and> (\<not> (length p > 4096 \<or> str_includes p (ascii ''..'') \<or> startsWith p (ascii ''/'')
          \<or> drive_prefix p \<or> str_includes p [0])
        \<and> blob_size c > 10 * 1024 * 1024
      \<longrightarrow> write_file p c h vfs = (Inl (FileTooLarge (blob_size c)), h, vfs))
   \<and> (\<not> (length p > 4096 \<or> str_includes p (ascii ''..'') \<or> startsWith p (ascii ''/'')
          \<or> drive_prefix p \<or> str_includes p [0])
        \<and> blob_size c = 10 * 1024 * 1024 \<and> files vfs < length h
      \<longrightarrow> write_file p c h vfs
            = (Inr (), h[files vfs := map_set (h ! files vfs) (normalizePath p) c], vfs)
          \<and> read p (fst (snd (write_file p c h vfs))) vfs = Inr c)"
proof (intro conjI impI)
  assume bad: "length p > 4096 \<or> str_includes p (ascii ''..'') \<or> startsWith p (ascii ''/'')
       \<or> drive_prefix p \<or> str_includes p [0]"
  then have "validatePath p \<noteq> None" using validatePath_None_iff by blast
  then obtain e where e: "validatePath p = Some e" by blast
  then obtain d where "e = InvalidPath d" using validatePath_Some by blast
  with e show "\<exists>d. write_file p c h vfs = (Inl (InvalidPath d), h, vfs)"
    by (simp add: write_file_def)
next
  assume a: "\<not> (length p > 4096 \<or> str_includes p (ascii ''..'') \<or> startsWith p (ascii ''/'')
          \<or> drive_prefix p \<or> str_includes p [0]) \<and> blob_size c > 10 * 1024 * 1024"
  then have "validatePath p = None" using validatePath_None_iff by blast
  with a show "write_file p c h vfs = (Inl (FileTooLarge (blob_size c)), h, vfs)"
    by (simp add: write_file_def MAX_FILE_SIZE_def)
next
  assume a: "\<not> (length p > 4096 \<or> str_includes p (ascii ''..'') \<or> startsWith p (ascii ''/'')
          \<or> drive_prefix p \<or> str_includes p [0])
        \<and> blob_size c = 10 * 1024 * 1024 \<and> files vfs < length h"
  then have v: "validatePath p = None" using validatePath_None_iff by blast
  with a show w: "write_file p c h vfs
            = (Inr (), h[files vfs := map_set (h ! files vfs) (normalizePath p) c], vfs)"
    by (simp add: write_file_def MAX_FILE_SIZE_def)
  show "read p (fst (snd (write_file p c h vfs))) vfs = Inr c"
    using a by (simp add: w read_def map_has_def map_get_def map_set_def update_conv')
qed

theorem write_file_validation_witness:
  "str_includes (ascii ''../etc/passwd'') (ascii ''..'')
   \<and> (\<exists>d. write_file (ascii ''../etc/passwd'') (ascii ''hack'') [[]] \<lparr>files = 0, snapshots = []\<rparr>
            = (Inl (InvalidPath d), [[]], \<lparr>files = 0, snapshots = []\<rparr>))
   \<and> write_file (ascii ''a.txt'') (replicate 10485761 0x61) [[]] \<lparr>files = 0, snapshots = []\<rparr>
       = (Inl (FileTooLarge 10485761), [[]], \<lparr>files = 0, snapshots = []\<rparr>)
   \<and> write_file (ascii ''a.txt'') (replicate 10485760 0x61) [[]] \<lparr>files = 0, snapshots = []\<rparr>
       = (Inr (), [[(ascii ''a.txt'', replicate 10485760 0x61)]], \<lparr>files = 0, snapshots = []\<rparr>)"
proof -
  have bad: "str_includes (ascii ''../etc/passwd'') (ascii ''..'')"
    by (simp add: ascii_def startsWith_def)
  have ok: "\<not> (length (ascii ''a.txt'') > 4096 \<or> str_includes (ascii ''a.txt'') (ascii ''..'')
      \<or> startsWith (ascii ''a.txt'') (ascii ''/'') \<or> drive_prefix (ascii ''a.txt'')
      \<or> str_includes (ascii ''a.txt'') [0])"
    by (simp add: ascii_def startsWith_def)
  have big: "blob_size (replicate 10485761 (0x61 :: 16 word)) = 10485761"
    by (rule blob_size_replicate) simp
  have edge: "blob_size (replicate 10485760 (0x61 :: 16 word)) = 10485760"
    by (rule blob_size_replicate) simp
  have np: "normalizePath (ascii ''a.txt'') = ascii ''a.txt''"
    by (simp add: normalizePath_def ascii_def)
  have 1: "\<exists>d. write_file (ascii ''../etc/passwd'') (ascii ''hack'') [[]] \<lparr>files = 0, snapshots = []\<rparr>
            = (Inl (InvalidPath d), [[]], \<lparr>files = 0, snapshots = []\<rparr>)"
    using write_file_validation [of "ascii ''../etc/passwd''" "ascii ''hack''" "[[]]"
        "\<lparr>files = 0, snapshots = []\<rparr>"] bad by blast
  have 2: "write_file (ascii ''a.txt'') (replicate 10485761 0x61) [[]] \<lparr>files = 0, snapshots = []\<rparr>
       = (Inl (FileTooLarge 10485761), [[]], \<lparr>files = 0, snapshots = []\<rparr>)"
    using write_file_validation [of "ascii ''a.txt''" "replicate 10485761 0x61" "[[]]"
        "\<lparr>files = 0, snapshots = []\<rparr>"] ok big by simp
  have 3: "write_file (ascii ''a.txt'') (replicate 10485760 0x61) [[]] \<lparr>files = 0, snapshots = []\<rparr>
       = (Inr (), [[(ascii ''a.txt'', replicate 10485760 0x61)]], \<lparr>files = 0, snapshots = []\<rparr>)"
    using write_file_validation [of "ascii ''a.txt''" "replicate 10485760 0x61" "[[]]"
        "\<lparr>files = 0, snapshots = []\<rparr>"] ok edge np by (simp add: map_set_def)
  show ?thesis using bad 1 2 3 by blast
qed

text \<open>
  Claim C10, as amended. For every path string, also one that \<^verbatim>\<open>write\<close> rejects,
  \<^verbatim>\<open>read\<close> and \<^verbatim>\<open>delete\<close> never throw InvalidPath (\<^verbatim>\<open>exists\<close> returns a boolean
  and cannot throw). When the normalized form of the path is not in the store,
  \<^verbatim>\<open>read\<close> throws FileNotFound, \<^verbatim>\<open>exists\<close> returns false, and \<^verbatim>\<open>delete\<close> returns
  normally and leaves the store as it was. When it is in the store, \<^verbatim>\<open>read\<close> returns
  its content and \<^verbatim>\<open>exists\<close> returns true; in every case \<^verbatim>\<open>exists\<close> tells whether
  the normalized form is stored and \<^verbatim>\<open>delete\<close> returns normally with the entry of the
  normalized form removed from the live Map.
\<close>

theorem read_exists_delete_unvalidated:
  "(\<forall>d. read p h vfs \<noteq> Inl (InvalidPath d))
   \<and> (\<forall>d. fst (delete p h vfs) \<noteq> Inl (InvalidPath d))
   \<and> (\<not> map_has (h ! files vfs) (normalizePath p)
        \<longrightarrow> read p h vfs = Inl (FileNotFound (normalizePath p))
          \<and> exists p h vfs = False
          \<and> delete p h vfs = (Inr (), h, vfs))
   \<and> (\<forall>content. map_get (h ! files vfs) (normalizePath p) = Some content
        \<longrightarrow> read p h vfs = Inr content \<and> exists p h vfs = True)
   \<and> exists p h vfs = map_has (h ! files vfs) (normalizePath p)
   \<and> delete p h vfs
       = (Inr (), h[files vfs := map_delete (h ! files vfs) (normalizePath p)], vfs)"
  by (auto simp: read_def exists_def delete_def Let_def map_delete_absent map_has_def map_get_def
      split: option.splits)

theorem read_exists_delete_unvalidated_witness:
  "str_includes (ascii ''../x'') (ascii ''..'')
   \<and> read (ascii ''../x'') [[(ascii ''a.txt'', ascii ''1'')]] \<lparr>files = 0, snapshots = []\<rparr>
       = Inl (FileNotFound (ascii ''../x''))
   \<and> exists (ascii ''../x'') [[(ascii ''a.txt'', ascii ''1'')]] \<lparr>files = 0, snapshots = []\<rparr> = False
   \<and> delete (ascii ''../x'') [[(ascii ''a.txt'', ascii ''1'')]] \<lparr>files = 0, snapshots = []\<rparr>
       = (Inr (), [[(ascii ''a.txt'', ascii ''1'')]], \<lparr>files = 0, snapshots = []\<rparr>)"
proof -
  have bad: "str_includes (ascii ''../x'') (ascii ''..'')"
    by (simp add: ascii_def startsWith_def)
  have np: "normalizePath (ascii ''../x'') = ascii ''../x''"
    by (simp add: normalizePath_def ascii_def)
  have absent: "\<not> map_has ([[(ascii ''a.txt'', ascii ''1'')]] ! files \<lparr>files = 0, snapshots = []\<rparr>)
                   (normalizePath (ascii ''../x''))"
    unfolding np by (simp add: map_has_def ascii_def)
  show ?thesis
    using read_exists_delete_unvalidated [of "ascii ''../x''" "[[(ascii ''a.txt'', ascii ''1'')]]"
        "\<lparr>files = 0, snapshots = []\<rparr>"] absent bad np by simp
qed

text \<open>
  Claim C10 as stated fails for a path with a leading \<^verbatim>\<open>/\<close> whose normalized form is
  stored: with \<^verbatim>\<open>a.txt\<close> in the store, \<^verbatim>\<open>exists("/a.txt")\<close> returns true and
  \<^verbatim>\<open>delete("/a.txt")\<close> removes the file, since normalization strips the leading
  separator.
\<close>

theorem exists_delete_leading_slash:
  "startsWith (ascii ''/a.txt'') (ascii ''/'')
   \<and> normalizePath (ascii ''/a.txt'') = ascii ''a.txt''
   \<and> exists (ascii ''/a.txt'') [[(ascii ''a.txt'', ascii ''1'')]] \<lparr>files = 0, snapshots = []\<rparr> = True
   \<and> delete (ascii ''/a.txt'') [[(ascii ''a.txt'', ascii ''1'')]] \<lparr>files = 0, snapshots = []\<rparr>
       = (Inr (), [[]], \<lparr>files = 0, snapshots = []\<rparr>)"
proof -
  have np: "normalizePath (ascii ''/a.txt'') = ascii ''a.txt''"
    by (simp add: normalizePath_def ascii_def)
  have sw: "startsWith (ascii ''/a.txt'') (ascii ''/'')"
    by (simp add: startsWith_def ascii_def)
  have ex: "exists (ascii ''/a.txt'') [[(ascii ''a.txt'', ascii ''1'')]] \<lparr>files = 0, snapshots = []\<rparr>"
    by (simp add: exists_def np map_has_def)
  have de: "delete (ascii ''/a.txt'') [[(ascii ''a.txt'', ascii ''1'')]] \<lparr>files = 0, snapshots = []\<rparr>
       = (Inr (), [[]], \<lparr>files = 0, snapshots = []\<rparr>)"
    by (simp add: delete_def np map_delete_def)
  show ?thesis using np sw ex de by simp
qed

subsection \<open>Diff\<close>

lemma new_Set_fold:
  "distinct acc \<Longrightarrow>
   distinct (fold (\<lambda>x s. if x \<in> set s then s else s @ [x]) xs acc)
   \<and> set (fold (\<lambda>x s. if x \<in> set s then s else s @ [x]) xs acc) = set acc \<union> set xs"
  by (induction xs arbitrary: acc) auto

lemma distinct_new_Set: "distinct (new_Set xs)"
  using new_Set_fold [of "[]" xs] by (simp add: new_Set_def)

lemma set_new_Set: "set (new_Set xs) = set xs"
  using new_Set_fold [of "[]" xs] by (simp add: new_Set_def)

lemma fold_push: "fold (\<lambda>p diffs. diffs @ f p) xs acc = acc @ concat (map f xs)"
  by (induction xs arbitrary: acc) auto

lemma diff_entry_path: "d \<in> set (diff_entry s1 s2 q) \<Longrightarrow> path d = q"
  by (auto simp: diff_entry_def Let_def split: if_splits)

lemma filter_diff_entry:
  "filter (\<lambda>d. path d = p) (diff_entry s1 s2 q) = (if q = p then diff_entry s1 s2 q else [])"
  by (auto simp: diff_entry_def Let_def)

lemma filter_concat_entries:
  "distinct xs \<Longrightarrow>
   filter (\<lambda>d. path d = p) (concat (map (diff_entry s1 s2) xs))
     = (if p \<in> set xs then diff_entry s1 s2 p else [])"
  by (induction xs) (auto simp: filter_diff_entry)

lemma map_get_None_iff: "map_get m k = None \<longleftrightarrow> k \<notin> set (map_keys m)"
  by (simp add: map_get_def map_keys_def map_of_eq_None_iff)

lemma diff_entry_absent:
  "p \<notin> set (map_keys s1) \<Longrightarrow> p \<notin> set (map_keys s2) \<Longrightarrow> diff_entry s1 s2 p = []"
  using map_get_None_iff [of s1 p] map_get_None_iff [of s2 p]
  by (simp add: diff_entry_def)

lemma filter_diff_maps: "filter (\<lambda>d. path d = p) (diff_maps s1 s2) = diff_entry s1 s2 p"
  by (simp add: diff_maps_def fold_push filter_concat_entries distinct_new_Set set_new_Set
      diff_entry_absent)

text \<open>
  Claim C7. \<^verbatim>\<open>diff(v1, v2)\<close> throws SnapshotNotFound when either id is unknown (naming
  \<open>v1\<close> when both are). For two retained snapshots, the entries of the result for a
  path \<open>p\<close> are: exactly one \<open>added\<close> entry when \<open>p\<close> is absent from the first and
  present in the second, exactly one \<open>deleted\<close> entry when it is present in the first
  and absent from the second, exactly one \<open>modified\<close> entry when it is present in both
  with different contents, and no entry when both snapshots agree on \<open>p\<close>.
\<close>

theorem diff_classifies_every_path:
  "(map_get (snapshots vfs) v1 = None \<longrightarrow> diff v1 v2 h vfs = Inl (SnapshotNotFound v1))
   \<and> (map_get (snapshots vfs) v1 \<noteq> None \<and> map_get (snapshots vfs) v2 = None
        \<longrightarrow> diff v1 v2 h vfs = Inl (SnapshotNotFound v2))
   \<and> (map_get (snapshots vfs) v1 = Some a \<and> map_get (snapshots vfs) v2 = Some b \<longrightarrow>
        (\<exists>ds. diff v1 v2 h vfs = Inr ds \<and>
          (\<forall>p c c'.
             (map_get (h ! a) p = None \<and> map_get (h ! b) p = Some c \<longrightarrow>
                filter (\<lambda>d. path d = p) ds
                  = [\<lparr>path = p, type = added, oldContent = None, newContent = Some c\<rparr>])
           \<and> (map_get (h ! a) p = Some c \<and> map_get (h ! b) p = None \<longrightarrow>
                filter (\<lambda>d. path d = p) ds
                  = [\<lparr>path = p, type = deleted, oldContent = Some c, newContent = None\<rparr>])
           \<and> (map_get (h ! a) p = Some c \<and> map_get (h ! b) p = Some c' \<and> c \<noteq> c' \<longrightarrow>
                filter (\<lambda>d. path d = p) ds
                  = [\<lparr>path = p, type = modified, oldContent = Some c, newContent = Some c'\<rparr>])
           \<and> (map_get (h ! a) p = map_get (h ! b) p \<longrightarrow>
                filter (\<lambda>d. path d = p) ds = []))))"
proof (intro conjI impI)
  assume "map_get (snapshots vfs) v1 = None"
  then show "diff v1 v2 h vfs = Inl (SnapshotNotFound v1)" by (simp add: diff_def)
next
  assume "map_get (snapshots vfs) v1 \<noteq> None \<and> map_get (snapshots vfs) v2 = None"
  then show "diff v1 v2 h vfs = Inl (SnapshotNotFound v2)" by (auto simp: diff_def)
next
  assume s: "map_get (snapshots vfs) v1 = Some a \<and> map_get (snapshots vfs) v2 = Some b"
  then have d: "diff v1 v2 h vfs = Inr (diff_maps (h ! a) (h ! b))" by (simp add: diff_def)
  have "\<forall>p c c'.
             (map_get (h ! a) p = None \<and> map_get (h ! b) p = Some c \<longrightarrow>
                filter (\<lambda>d. path d = p) (diff_maps (h ! a) (h ! b))
                  = [\<lparr>path = p, type = added, oldContent = None, newContent = Some c\<rparr>])
           \<and> (map_get (h ! a) p = Some c \<and> map_get (h ! b) p = None \<longrightarrow>
                filter (\<lambda>d. path d = p) (diff_maps (h ! a) (h ! b))
                  = [\<lparr>path = p, type = deleted, oldContent = Some c, newContent = None\<rparr>])
           \<and> (map_get (h ! a) p = Some c \<and> map_get (h ! b) p = Some c' \<and> c \<noteq> c' \<longrightarrow>
                filter (\<lambda>d. path d = p) (diff_maps (h ! a) (h ! b))
                  = [\<lparr>path = p, type = modified, oldContent = Some c, newContent = Some c'\<rparr>])
           \<and> (map_get (h ! a) p = map_get (h ! b) p \<longrightarrow>
                filter (\<lambda>d. path d = p) (diff_maps (h ! a) (h ! b)) = [])"
    by (auto simp: filter_diff_maps diff_entry_def Let_def)
  with d show "\<exists>ds. diff v1 v2 h vfs = Inr ds \<and>
          (\<forall>p c c'.
             (map_get (h ! a) p = None \<and> map_get (h ! b) p = Some c \<longrightarrow>
                filter (\<lambda>d. path d = p) ds
                  = [\<lparr>path = p, type = added, oldContent = None, newContent = Some c\<rparr>])
           \<and> (map_get (h ! a) p = Some c \<and> map_get (h ! b) p = None \<longrightarrow>
                filter (\<lambda>d. path d = p) ds
                  = [\<lparr>path = p, type = deleted, oldContent = Some c, newContent = None\<rparr>])
           \<and> (map_get (h ! a) p = Some c \<and> map_get (h ! b) p = Some c' \<and> c \<noteq> c' \<longrightarrow>
                filter (\<lambda>d. path d = p) ds
                  = [\<lparr>path = p, type = modified, oldContent = Some c, newContent = Some c'\<rparr>])
           \<and> (map_get (h ! a) p = map_get (h ! b) p \<longrightarrow>
                filter (\<lambda>d. path d = p) ds = []))"
    by blast
qed

theorem diff_classifies_every_path_witness:
  "diff (ascii ''V0'') (ascii ''V2'')
      [[], [(ascii ''index.html'', ascii ''A''), (ascii ''a.ts'', ascii ''1'')],
           [(ascii ''index.html'', ascii ''B''), (ascii ''b.ts'', ascii ''2'')]]
      \<lparr>files = 0, snapshots = [(ascii ''V1'', 1), (ascii ''V2'', 2)]\<rparr>
     = Inl (SnapshotNotFound (ascii ''V0''))
   \<and> diff (ascii ''V1'') (ascii ''V3'')
      [[], [(ascii ''index.html'', ascii ''A''), (ascii ''a.ts'', ascii ''1'')],
           [(ascii ''index.html'', ascii ''B''), (ascii ''b.ts'', ascii ''2'')]]
      \<lparr>files = 0, snapshots = [(ascii ''V1'', 1), (ascii ''V2'', 2)]\<rparr>
     = Inl (SnapshotNotFound (ascii ''V3''))
   \<and> (\<exists>ds. diff (ascii ''V1'') (ascii ''V2'')
      [[], [(ascii ''index.html'', ascii ''A''), (ascii ''a.ts'', ascii ''1'')],
           [(ascii ''index.html'', ascii ''B''), (ascii ''b.ts'', ascii ''2'')]]
      \<lparr>files = 0, snapshots = [(ascii ''V1'', 1), (ascii ''V2'', 2)]\<rparr> = Inr ds
      \<and> filter (\<lambda>d. path d = ascii ''b.ts'') ds
          = [\<lparr>path = ascii ''b.ts'', type = added, oldContent = None, newContent = Some (ascii ''2'')\<rparr>]
      \<and> filter (\<lambda>d. path d = ascii ''a.ts'') ds
          = [\<lparr>path = ascii ''a.ts'', type = deleted, oldContent = Some (ascii ''1''), newContent = None\<rparr>]
      \<and> filter (\<lambda>d. path d = ascii ''index.html'') ds
          = [\<lparr>path = ascii ''index.html'', type = modified, oldContent = Some (ascii ''A''),
              newContent = Some (ascii ''B'')\<rparr>]
      \<and> filter (\<lambda>d. path d = ascii ''c.ts'') ds = [])"
proof -
  let ?h = "[[], [(ascii ''index.html'', ascii ''A''), (ascii ''a.ts'', ascii ''1'')],
           [(ascii ''index.html'', ascii ''B''), (ascii ''b.ts'', ascii ''2'')]]"
  let ?vfs = "\<lparr>files = 0, snapshots = [(ascii ''V1'', 1), (ascii ''V2'', 2)]\<rparr>"
  have g0: "map_get (snapshots ?vfs) (ascii ''V0'') = None"
    and g1: "map_get (snapshots ?vfs) (ascii ''V1'') = Some 1"
    and g2: "map_get (snapshots ?vfs) (ascii ''V2'') = Some 2"
    and g3: "map_get (snapshots ?vfs) (ascii ''V3'') = None"
    by (simp_all add: map_get_def ascii_def)
  have e1: "diff (ascii ''V0'') (ascii ''V2'') ?h ?vfs = Inl (SnapshotNotFound (ascii ''V0''))"
    using diff_classifies_every_path [of ?vfs "ascii ''V0''" "ascii ''V2''" ?h 1 2] g0 by blast
  have e2: "diff (ascii ''V1'') (ascii ''V3'') ?h ?vfs = Inl (SnapshotNotFound (ascii ''V3''))"
    using diff_classifies_every_path [of ?vfs "ascii ''V1''" "ascii ''V3''" ?h 1 2] g1 g3 by simp
  obtain ds where ds: "diff (ascii ''V1'') (ascii ''V2'') ?h ?vfs = Inr ds"
    and cl: "\<And>p c c'.
             (map_get (?h ! 1) p = None \<and> map_get (?h ! 2) p = Some c \<longrightarrow>
                filter (\<lambda>d. path d = p) ds
                  = [\<lparr>path = p, type = added, oldContent = None, newContent = Some c\<rparr>])
           \<and> (map_get (?h ! 1) p = Some c \<and> map_get (?h ! 2) p = None \<longrightarrow>
                filter (\<lambda>d. path d = p) ds
                  = [\<lparr>path = p, type = deleted, oldContent = Some c, newContent = None\<rparr>])
           \<and> (map_get (?h ! 1) p = Some c \<and> map_get (?h ! 2) p = Some c' \<and> c \<noteq> c' \<longrightarrow>
                filter (\<lambda>d. path d = p) ds
                  = [\<lparr>path = p, type = modified, oldContent = Some c, newContent = Some c'\<rparr>])
           \<and> (map_get (?h ! 1) p = map_get (?h ! 2) p \<longrightarrow>
                filter (\<lambda>d. path d = p) ds = [])"
    using diff_classifies_every_path [of ?vfs "ascii ''V1''" "ascii ''V2''" ?h 1 2] g1 g2 by blast
  have a: "filter (\<lambda>d. path d = ascii ''b.ts'') ds
          = [\<lparr>path = ascii ''b.ts'', type = added, oldContent = None, newContent = Some (ascii ''2'')\<rparr>]"
    using cl [of "ascii ''b.ts''" "ascii ''2''" "[]"] by (simp add: map_get_def ascii_def)
  have b: "filter (\<lambda>d. path d = ascii ''a.ts'') ds
          = [\<lparr>path = ascii ''a.ts'', type = deleted, oldContent = Some (ascii ''1''), newContent = None\<rparr>]"
    using cl [of "ascii ''a.ts''" "ascii ''1''" "[]"] by (simp add: map_get_def ascii_def)
  have c: "filter (\<lambda>d. path d = ascii ''index.html'') ds
          = [\<lparr>path = ascii ''index.html'', type = modified, oldContent = Some (ascii ''A''),
              newContent = Some (ascii ''B'')\<rparr>]"
    using cl [of "ascii ''index.html''" "ascii ''A''" "ascii ''B''"] by (simp add: map_get_def ascii_def)
  have d: "filter (\<lambda>d. path d = ascii ''c.ts'') ds = []"
    using cl [of "ascii ''c.ts''" "[]" "[]"] by (simp add: map_get_def ascii_def)
  show ?thesis using e1 e2 ds a b c d by blast
qed

subsection \<open>Snapshots and versions\<close>

lemma set_map_set: "set (map_set m k v) \<subseteq> insert (k, v) (set m)"
  unfolding map_set_def by (induction m) auto

lemma map_get_in_set: "map_get m k = Some v \<Longrightarrow> (k, v) \<in> set m"
  by (simp add: map_get_def map_of_SomeD)

lemma apply_op_frame:
  assumes "apply_op x (h, vfs) = (h', vfs')"
  shows "vfs' = vfs \<and> length h' = length h \<and> (\<forall>a. a \<noteq> files vfs \<longrightarrow> h' ! a = h ! a)"
proof (cases x)
  case (Write p c)
  then show ?thesis using assms
    by (auto simp: write_file_def Let_def split: option.splits if_splits)
next
  case (Delete p)
  then show ?thesis using assms by (auto simp: delete_def Let_def)
qed

lemma run_ops_frame:
  "run_ops ops (h, vfs) = (h', vfs') \<Longrightarrow>
   vfs' = vfs \<and> length h' = length h \<and> (\<forall>a. a \<noteq> files vfs \<longrightarrow> h' ! a = h ! a)"
proof (induction ops arbitrary: h)
  case Nil
  then show ?case by (simp add: run_ops_def)
next
  case (Cons x ops)
  obtain h1 vfs1 where s: "apply_op x (h, vfs) = (h1, vfs1)" by (cases "apply_op x (h, vfs)")
  then have f1: "vfs1 = vfs \<and> length h1 = length h \<and> (\<forall>a. a \<noteq> files vfs \<longrightarrow> h1 ! a = h ! a)"
    by (rule apply_op_frame)
  from Cons.prems s have "run_ops ops (h1, vfs) = (h', vfs')" using f1 by (simp add: run_ops_def)
  then have "vfs' = vfs \<and> length h' = length h1 \<and> (\<forall>a. a \<noteq> files vfs \<longrightarrow> h' ! a = h1 ! a)"
    by (rule Cons.IH)
  with f1 show ?case by simp
qed

lemma mutate_frame:
  "length (mutate m h) = length h \<and> (\<forall>a. a \<noteq> target m \<longrightarrow> mutate m h ! a = h ! a)"
  by (cases m) auto

lemma fold_mutate_frame:
  "\<forall>m \<in> set ms. target m \<noteq> a \<Longrightarrow> fold mutate ms h ! a = h ! a"
  by (induction ms arbitrary: h) (auto simp: mutate_frame)

lemma vfs_wf_new_VFS: "new_VFS h = (h', vfs) \<Longrightarrow> vfs_wf h' vfs"
  by (auto simp: new_VFS_def new_Map_def vfs_wf_def)

lemma vfs_wf_snapshot:
  assumes "vfs_wf h vfs" and "snapshot now rnd h vfs = (v, h', vfs')"
  shows "vfs_wf h' vfs'"
proof -
  have h': "h' = h @ [h ! files vfs]"
    and vfs': "vfs' = vfs\<lparr>snapshots := map_set (snapshots vfs) (generateVersionId now rnd) (length h)\<rparr>"
    using assms(2) by (auto simp: snapshot_def new_Map_def Let_def)
  show ?thesis
    unfolding vfs_wf_def h' vfs'
    using assms(1) set_map_set [of "snapshots vfs" "generateVersionId now rnd" "length h"]
    by (fastforce simp: vfs_wf_def)
qed

lemma vfs_wf_run_ops:
  assumes "vfs_wf h vfs" and "run_ops ops (h, vfs) = (h', vfs')"
  shows "vfs_wf h' vfs'"
  using run_ops_frame [OF assms(2)] assms(1) by (auto simp: vfs_wf_def)

lemma vfs_wf_restore:
  assumes "vfs_wf h vfs" and "restore v h vfs = (r, h', vfs')"
  shows "vfs_wf h' vfs'"
  using assms
  by (auto simp: restore_def new_Map_def vfs_wf_def Let_def split: if_splits option.splits)
    fastforce

lemma vfs_wf_clear:
  assumes "vfs_wf h vfs" and "clear h vfs = (h', vfs')"
  shows "vfs_wf h' vfs'"
  using assms by (auto simp: clear_def vfs_wf_def)

text \<open>
  Claim C2. After \<^verbatim>\<open>snapshot()\<close> has returned the id \<open>S\<close>, whatever sequence of
  \<^verbatim>\<open>write\<close> and \<^verbatim>\<open>delete\<close> calls follows on the live store: the Map retained under
  \<open>S\<close> is the mapping that was current when \<^verbatim>\<open>snapshot()\<close> was called, every
  \<^verbatim>\<open>diff\<close> with \<open>S\<close> on either side returns what it returned before the calls, and
  \<^verbatim>\<open>restore(S)\<close> succeeds and makes that mapping the live one.
\<close>

theorem snapshot_isolation:
  assumes "vfs_wf h vfs"
    and "snapshot now rnd h vfs = (S, h1, vfs1)"
    and "run_ops ops (h1, vfs1) = (h2, vfs2)"
  shows "(\<exists>s. getSnapshot S vfs2 = Some s \<and> h2 ! s = h ! files vfs)
       \<and> (\<forall>X. diff S X h2 vfs2 = diff S X h1 vfs1 \<and> diff X S h2 vfs2 = diff X S h1 vfs1)
       \<and> (\<exists>h3 vfs3. restore S h2 vfs2 = (Inr (), h3, vfs3) \<and> h3 ! files vfs3 = h ! files vfs)"
proof -
  have h1: "h1 = h @ [h ! files vfs]"
    and vfs1: "vfs1 = vfs\<lparr>snapshots := map_set (snapshots vfs) S (length h)\<rparr>"
    using assms(2) by (auto simp: snapshot_def new_Map_def Let_def)
  have wf1: "vfs_wf h1 vfs1" using assms(1,2) by (rule vfs_wf_snapshot)
  have fr: "vfs2 = vfs1 \<and> length h2 = length h1 \<and> (\<forall>a. a \<noteq> files vfs1 \<longrightarrow> h2 ! a = h1 ! a)"
    using assms(3) by (rule run_ops_frame)
  have kept: "h2 ! s = h1 ! s" if "map_get (snapshots vfs1) v = Some s" for v s
  proof -
    have "(v, s) \<in> set (snapshots vfs1)" using that by (rule map_get_in_set)
    then have "s \<noteq> files vfs1" using wf1 by (auto simp: vfs_wf_def)
    then show ?thesis using fr by simp
  qed
  have gs: "map_get (snapshots vfs1) S = Some (length h)"
    by (simp add: vfs1 map_get_map_set)
  have c: "h2 ! length h = h ! files vfs"
    using kept [OF gs] by (simp add: h1)
  have a: "\<exists>s. getSnapshot S vfs2 = Some s \<and> h2 ! s = h ! files vfs"
    using gs c fr by (simp add: getSnapshot_def)
  have d: "diff v w h2 vfs2 = diff v w h1 vfs1" for v w
    using fr kept by (auto simp: diff_def split: option.splits)
  have "restore S h2 vfs2 = (Inr (), h2 @ [h2 ! length h], vfs2\<lparr>files := length h2\<rparr>)"
    using gs fr by (simp add: restore_def map_has_def map_get_def new_Map_def)
  then have r: "\<exists>h3 vfs3. restore S h2 vfs2 = (Inr (), h3, vfs3) \<and> h3 ! files vfs3 = h ! files vfs"
    using c by simp
  show ?thesis using a d r by blast
qed

theorem snapshot_isolation_witness:
  "vfs_wf [[(ascii ''index.html'', ascii ''A'')]] \<lparr>files = 0, snapshots = []\<rparr>
   \<and> (\<exists>h3 vfs3.
        restore (fst (snapshot 5 (ascii ''abc'') [[(ascii ''index.html'', ascii ''A'')]]
                       \<lparr>files = 0, snapshots = []\<rparr>))
          (fst (run_ops [Write (ascii ''index.html'') (ascii ''B''), Delete (ascii ''index.html'')]
                 (snd (snapshot 5 (ascii ''abc'') [[(ascii ''index.html'', ascii ''A'')]]
                       \<lparr>files = 0, snapshots = []\<rparr>))))
          (snd (run_ops [Write (ascii ''index.html'') (ascii ''B''), Delete (ascii ''index.html'')]
                 (snd (snapshot 5 (ascii ''abc'') [[(ascii ''index.html'', ascii ''A'')]]
                       \<lparr>files = 0, snapshots = []\<rparr>))))
          = (Inr (), h3, vfs3)
        \<and> h3 ! files vfs3 = [(ascii ''index.html'', ascii ''A'')])"
proof -
  let ?h = "[[(ascii ''index.html'', ascii ''A'')]]"
  let ?vfs = "\<lparr>files = 0, snapshots = []\<rparr>"
  let ?sn = "snapshot 5 (ascii ''abc'') ?h ?vfs"
  let ?ops = "[Write (ascii ''index.html'') (ascii ''B''), Delete (ascii ''index.html'')]"
  let ?ro = "run_ops ?ops (snd ?sn)"
  have wf: "vfs_wf ?h ?vfs" by (simp add: vfs_wf_def)
  have sn: "?sn = (fst ?sn, fst (snd ?sn), snd (snd ?sn))" by simp
  have ro: "run_ops ?ops (fst (snd ?sn), snd (snd ?sn)) = (fst ?ro, snd ?ro)" by simp
  show ?thesis
    using snapshot_isolation [OF wf sn ro] wf by simp
qed

lemma createVersion_result:
  assumes "createVersion sessionId fs st idnow rnd now h vh vm = (r, h1, vh1, vm1)"
  shows "r = length vh" and "h1 = h @ [h ! fs]"
    and "vh1 = vh @ [\<lparr>vid = generateVersionId idnow rnd, timestamp = Some now,
                       vfiles = length h, status = st, errorLog = None\<rparr>]"
    and "versions vm1 = map_set (versions vm) (generateVersionId idnow rnd) (length vh)"
  using assms by (auto simp: createVersion_def new_Map_def Let_def)

text \<open>
  Claim C1. \<^verbatim>\<open>createVersion\<close> stores the entries of the Map it is given in a new Map
  object, different from every Map that existed before the call (the one passed in, the
  live Map of a store); \<^verbatim>\<open>set\<close> and \<^verbatim>\<open>delete\<close> on any other Map object, and
  \<^verbatim>\<open>write\<close> and \<^verbatim>\<open>delete\<close> on a store whose live Map is another object, leave the
  files of the Version as they were. \<^verbatim>\<open>updateVersionStatus\<close> on a known id
  allocates a new Version object with the same id and the same files reference, the new
  status, error log and timestamp, and puts it under the id; the object that was there
  before, and every other Version object, is untouched.
\<close>

theorem version_files_immutable:
  assumes "fs < length h"
    and "createVersion sessionId fs st idnow rnd now h vh vm = (r, h1, vh1, vm1)"
  shows "(\<forall>a < length h. a \<noteq> vfiles (vh1 ! r)) \<and> h1 ! vfiles (vh1 ! r) = h ! fs
       \<and> getVersion (vid (vh1 ! r)) vm1 = Some r
       \<and> (\<forall>ms. (\<forall>m \<in> set ms. target m \<noteq> vfiles (vh1 ! r)) \<longrightarrow>
              fold mutate ms h1 ! vfiles (vh1 ! r) = h ! fs)
       \<and> (\<forall>ops vfs. files vfs \<noteq> vfiles (vh1 ! r) \<longrightarrow>
              fst (run_ops ops (h1, vfs)) ! vfiles (vh1 ! r) = h ! fs)
       \<and> (\<forall>versionId st' elog now' vhx vmx old.
              getVersion versionId vmx = Some old \<and> old < length vhx \<longrightarrow>
                (\<exists>vhy vmy new.
                   updateVersionStatus versionId st' elog now' vhx vmx = (Inr (), vhy, vmy)
                   \<and> getVersion versionId vmy = Some new \<and> new \<noteq> old
                   \<and> vhy ! new = \<lparr>vid = vid (vhx ! old), timestamp = Some now',
                                  vfiles = vfiles (vhx ! old), status = st', errorLog = elog\<rparr>
                   \<and> vhy ! old = vhx ! old
                   \<and> (\<forall>q < length vhx. vhy ! q = vhx ! q)))"
proof -
  note cv = createVersion_result [OF assms(2)]
  have vr: "vh1 ! r = \<lparr>vid = generateVersionId idnow rnd, timestamp = Some now,
                       vfiles = length h, status = st, errorLog = None\<rparr>"
    by (simp add: cv)
  have p1: "(\<forall>a < length h. a \<noteq> vfiles (vh1 ! r)) \<and> h1 ! vfiles (vh1 ! r) = h ! fs"
    using assms(1) by (simp add: vr cv(2))
  have "vid (vh1 ! r) = generateVersionId idnow rnd" by (simp add: vr)
  then have p2: "getVersion (vid (vh1 ! r)) vm1 = Some r"
    by (simp add: getVersion_def cv(4) cv(1) map_get_map_set)
  have p3: "fold mutate ms h1 ! vfiles (vh1 ! r) = h ! fs"
    if "\<forall>m \<in> set ms. target m \<noteq> vfiles (vh1 ! r)" for ms
  proof -
    have "\<forall>m \<in> set ms. target m \<noteq> length h" using that by (simp add: vr)
    then have "fold mutate ms h1 ! length h = h1 ! length h" by (rule fold_mutate_frame)
    then show ?thesis by (simp add: vr cv(2))
  qed
  have p4: "fst (run_ops ops (h1, vfs)) ! vfiles (vh1 ! r) = h ! fs"
    if "files vfs \<noteq> vfiles (vh1 ! r)" for ops vfs
  proof -
    obtain h2 vfs2 where ro: "run_ops ops (h1, vfs) = (h2, vfs2)"
      by (cases "run_ops ops (h1, vfs)")
    have "files vfs \<noteq> length h" using that by (simp add: vr)
    then have "h2 ! length h = h1 ! length h"
      using run_ops_frame [OF ro] by simp
    moreover have "fst (run_ops ops (h1, vfs)) = h2" by (simp add: ro)
    ultimately show ?thesis by (simp add: vr cv(2))
  qed
  have p5: "\<exists>vhy vmy new.
                   updateVersionStatus versionId st' elog now' vhx vmx = (Inr (), vhy, vmy)
                   \<and> getVersion versionId vmy = Some new \<and> new \<noteq> old
                   \<and> vhy ! new = \<lparr>vid = vid (vhx ! old), timestamp = Some now',
                                  vfiles = vfiles (vhx ! old), status = st', errorLog = elog\<rparr>
                   \<and> vhy ! old = vhx ! old
                   \<and> (\<forall>q < length vhx. vhy ! q = vhx ! q)"
    if "getVersion versionId vmx = Some old \<and> old < length vhx"
    for versionId st' elog now' vhx vmx old
    using that
    by (simp add: updateVersionStatus_def getVersion_def Let_def map_get_map_set nth_append)
  show ?thesis using p1 p2 p3 p4 p5 by blast
qed

theorem version_files_immutable_witness:
  "(0::nat) < length [[(ascii ''x'', ascii ''1'')]]
   \<and> createVersion (ascii ''s1'') 0 Status_BUILDING 7 (ascii ''abc'') 1000
        [[(ascii ''x'', ascii ''1'')]] [] \<lparr>versions = [], sessionVersions = []\<rparr>
      = (0, [[(ascii ''x'', ascii ''1'')], [(ascii ''x'', ascii ''1'')]],
         [\<lparr>vid = generateVersionId 7 (ascii ''abc''), timestamp = Some 1000, vfiles = 1,
           status = Status_BUILDING, errorLog = None\<rparr>],
         \<lparr>versions = [(generateVersionId 7 (ascii ''abc''), 0)],
          sessionVersions = [(ascii ''s1'', [generateVersionId 7 (ascii ''abc'')])]\<rparr>)
   \<and> fold mutate [MapSet 0 (ascii ''x'') (ascii ''2''), MapDelete 0 (ascii ''x'')]
        [[(ascii ''x'', ascii ''1'')], [(ascii ''x'', ascii ''1'')]] ! 1 = [(ascii ''x'', ascii ''1'')]
   \<and> (\<exists>vhy vmy new.
         updateVersionStatus (generateVersionId 7 (ascii ''abc'')) Status_VALID None 2000
           [\<lparr>vid = generateVersionId 7 (ascii ''abc''), timestamp = Some 1000, vfiles = 1,
             status = Status_BUILDING, errorLog = None\<rparr>]
           \<lparr>versions = [(generateVersionId 7 (ascii ''abc''), 0)],
            sessionVersions = [(ascii ''s1'', [generateVersionId 7 (ascii ''abc'')])]\<rparr>
           = (Inr (), vhy, vmy)
         \<and> getVersion (generateVersionId 7 (ascii ''abc'')) vmy = Some new
         \<and> vhy ! new = \<lparr>vid = generateVersionId 7 (ascii ''abc''), timestamp = Some 2000, vfiles = 1,
                         status = Status_VALID, errorLog = None\<rparr>
         \<and> vhy ! 0 = \<lparr>vid = generateVersionId 7 (ascii ''abc''), timestamp = Some 1000, vfiles = 1,
                       status = Status_BUILDING, errorLog = None\<rparr>)"
proof -
  let ?h = "[[(ascii ''x'', ascii ''1'')]]"
  let ?vm = "\<lparr>versions = [], sessionVersions = []\<rparr>"
  let ?id = "generateVersionId 7 (ascii ''abc'')"
  let ?v = "\<lparr>vid = ?id, timestamp = Some 1000, vfiles = 1, status = Status_BUILDING, errorLog = None\<rparr>"
  let ?vm1 = "\<lparr>versions = [(?id, 0)], sessionVersions = [(ascii ''s1'', [?id])]\<rparr>"
  have l: "(0::nat) < length ?h" by simp
  have cv: "createVersion (ascii ''s1'') 0 Status_BUILDING 7 (ascii ''abc'') 1000 ?h [] ?vm
      = (0, [[(ascii ''x'', ascii ''1'')], [(ascii ''x'', ascii ''1'')]], [?v], ?vm1)"
    by (simp add: createVersion_def new_Map_def map_set_def map_has_def map_get_def Let_def)
  note T = version_files_immutable [OF l cv]
  have m: "\<forall>m \<in> set [MapSet 0 (ascii ''x'') (ascii ''2''), MapDelete 0 (ascii ''x'')].
             target m \<noteq> vfiles ([?v] ! 0)"
    by simp
  have 1: "fold mutate [MapSet 0 (ascii ''x'') (ascii ''2''), MapDelete 0 (ascii ''x'')]
        [[(ascii ''x'', ascii ''1'')], [(ascii ''x'', ascii ''1'')]] ! 1 = [(ascii ''x'', ascii ''1'')]"
  proof -
    from T have "\<forall>ms. (\<forall>m \<in> set ms. target m \<noteq> vfiles ([?v] ! 0)) \<longrightarrow>
        fold mutate ms [[(ascii ''x'', ascii ''1'')], [(ascii ''x'', ascii ''1'')]] ! vfiles ([?v] ! 0)
          = ?h ! 0"
      by blast
    with m have "fold mutate [MapSet 0 (ascii ''x'') (ascii ''2''), MapDelete 0 (ascii ''x'')]
        [[(ascii ''x'', ascii ''1'')], [(ascii ''x'', ascii ''1'')]] ! vfiles ([?v] ! 0) = ?h ! 0"
      by blast
    then show ?thesis by (simp del: fold_simps mutate.simps)
  qed
  have g: "getVersion ?id ?vm1 = Some 0 \<and> 0 < length [?v]" by (simp add: getVersion_def map_get_def)
  have 2: "\<exists>vhy vmy new.
         updateVersionStatus ?id Status_VALID None 2000 [?v] ?vm1 = (Inr (), vhy, vmy)
         \<and> getVersion ?id vmy = Some new
         \<and> vhy ! new = \<lparr>vid = ?id, timestamp = Some 2000, vfiles = 1,
                         status = Status_VALID, errorLog = None\<rparr>
         \<and> vhy ! 0 = ?v"
  proof -
    from T have "\<forall>versionId st' elog now' vhx vmx old.
              getVersion versionId vmx = Some old \<and> old < length vhx \<longrightarrow>
                (\<exists>vhy vmy new.
                   updateVersionStatus versionId st' elog now' vhx vmx = (Inr (), vhy, vmy)
                   \<and> getVersion versionId vmy = Some new \<and> new \<noteq> old
                   \<and> vhy ! new = \<lparr>vid = vid (vhx ! old), timestamp = Some now',
                                  vfiles = vfiles (vhx ! old), status = st', errorLog = elog\<rparr>
                   \<and> vhy ! old = vhx ! old
                   \<and> (\<forall>q < length vhx. vhy ! q = vhx ! q))"
      by blast
    with g obtain vhy vmy new where
      "updateVersionStatus ?id Status_VALID None 2000 [?v] ?vm1 = (Inr (), vhy, vmy)"
      "getVersion ?id vmy = Some new"
      "vhy ! new = \<lparr>vid = vid ([?v] ! 0), timestamp = Some 2000,
                                  vfiles = vfiles ([?v] ! 0), status = Status_VALID, errorLog = None\<rparr>"
      "vhy ! 0 = [?v] ! 0"
      by blast
    then show ?thesis by simp
  qed
  show ?thesis using l cv 1 2 by blast
qed

subsection \<open>Time values and their ISO strings\<close>

lemma div_succ:
  fixes a k :: int
  assumes "0 < k"
  shows "(a + 1) div k = a div k + (if (a + 1) mod k = 0 then 1 else 0)"
proof (cases "a mod k = k - 1")
  case True
  have "a = k * (a div k) + a mod k" by simp
  then have e: "a + 1 = (a div k + 1) * k" using True by (simp add: algebra_simps)
  have "(a + 1) div k = a div k + 1" using assms by (simp add: e)
  moreover have "(a + 1) mod k = 0" by (simp add: e)
  ultimately show ?thesis by simp
next
  case False
  have r: "0 \<le> a mod k" "a mod k < k" using assms by simp_all
  have e: "a + 1 = k * (a div k) + (a mod k + 1)" by simp
  have b: "0 \<le> a mod k + 1" "a mod k + 1 < k" using r False by simp_all
  have "(a + 1) div k = a div k" using e b by (rule int_div_pos_eq)
  moreover have "(a + 1) mod k = a mod k + 1" using e b by (rule int_mod_pos_eq)
  ultimately show ?thesis using r by simp
qed

lemma mod_shift:
  fixes y c k :: int
  assumes "k dvd c"
  shows "(y - c) mod k = 0 \<longleftrightarrow> y mod k = 0"
  using assms by (simp add: mod_eq_0_iff_dvd dvd_diff_left_iff)

lemma DayFromYear_step: "DayFromYear (y + 1) = DayFromYear y + DaysInYear y"
proof -
  have a: "(y - 1968) div 4 = (y - 1969) div 4 + (if y mod 4 = 0 then 1 else 0)"
    using div_succ [of 4 "y - 1969"] mod_shift [of 4 1968 y] by simp
  have b: "(y - 1900) div 100 = (y - 1901) div 100 + (if y mod 100 = 0 then 1 else 0)"
    using div_succ [of 100 "y - 1901"] mod_shift [of 100 1900 y] by simp
  have c: "(y - 1600) div 400 = (y - 1601) div 400 + (if y mod 400 = 0 then 1 else 0)"
    using div_succ [of 400 "y - 1601"] mod_shift [of 400 1600 y] by simp
  have d: "y mod 4 = 0" if "y mod 100 = 0"
  proof -
    have "(4::int) dvd 100" by simp
    moreover have "100 dvd y" using that by (simp add: mod_eq_0_iff_dvd)
    ultimately have "4 dvd y" by (rule dvd_trans)
    then show ?thesis by (simp add: mod_eq_0_iff_dvd)
  qed
  have e: "y mod 100 = 0" if "y mod 400 = 0"
  proof -
    have "(100::int) dvd 400" by simp
    moreover have "400 dvd y" using that by (simp add: mod_eq_0_iff_dvd)
    ultimately have "100 dvd y" by (rule dvd_trans)
    then show ?thesis by (simp add: mod_eq_0_iff_dvd)
  qed
  have s: "DayFromYear (y + 1)
             = 365 * (y - 1969) + (y - 1968) div 4 - (y - 1900) div 100 + (y - 1600) div 400"
    by (simp add: DayFromYear_def)
  have n: "DayFromYear (y + 1)
             = DayFromYear y + 365 + (if y mod 4 = 0 then 1 else 0)
                 - (if y mod 100 = 0 then 1 else 0) + (if y mod 400 = 0 then 1 else 0)"
    unfolding s a b c by (simp add: DayFromYear_def)
  show ?thesis
  proof (cases "y mod 4 = 0")
    case False
    then have "y mod 100 \<noteq> 0 \<and> y mod 400 \<noteq> 0" using d e by auto
    with False show ?thesis unfolding n by (simp add: DaysInYear_def)
  next
    case True
    show ?thesis
    proof (cases "y mod 100 = 0")
      case False
      then have "y mod 400 \<noteq> 0" using e by auto
      with True False show ?thesis unfolding n by (simp add: DaysInYear_def)
    next
      case h: True
      show ?thesis
        using True h unfolding n by (simp add: DaysInYear_def)
    qed
  qed
qed

lemma DaysInYear_bounds: "365 \<le> DaysInYear y \<and> DaysInYear y \<le> 366"
  by (simp add: DaysInYear_def)

lemma year_up_post:
  "DayFromYear y \<le> day \<Longrightarrow>
   DayFromYear (year_up day y) \<le> day \<and> day < DayFromYear (year_up day y + 1)"
proof (induction day y rule: year_up.induct)
  case (1 day y)
  show ?case
  proof (cases "DayFromYear (y + 1) \<le> day")
    case True
    then have "year_up day y = year_up day (y + 1)" by (simp add: year_up.simps [of day y])
    with 1 True show ?thesis by simp
  next
    case False
    then have "year_up day y = y" by (simp add: year_up.simps [of day y])
    with 1 False show ?thesis by simp
  qed
qed

lemma year_down_post:
  "day < DayFromYear (y + 1) \<Longrightarrow>
   DayFromYear (year_down day y) \<le> day \<and> day < DayFromYear (year_down day y + 1)"
proof (induction day y rule: year_down.induct)
  case (1 day y)
  show ?case
  proof (cases "day < DayFromYear y")
    case True
    then have "year_down day y = year_down day (y - 1)" by (simp add: year_down.simps [of day y])
    with 1 True show ?thesis by simp
  next
    case False
    then have "year_down day y = y" by (simp add: year_down.simps [of day y])
    with 1 False show ?thesis by simp
  qed
qed

lemma YearFromTime_bounds:
  "DayFromYear (YearFromTime t) \<le> Day t \<and> Day t < DayFromYear (YearFromTime t + 1)"
proof (cases "0 \<le> Day t")
  case True
  have "DayFromYear 1970 = 0" by (simp add: DayFromYear_def)
  then show ?thesis using True year_up_post [of 1970 "Day t"] by (simp add: YearFromTime_def)
next
  case False
  have "DayFromYear (1969 + 1) = 0" by (simp add: DayFromYear_def)
  then show ?thesis using False year_down_post [of "Day t" 1969] by (simp add: YearFromTime_def)
qed

lemma DayWithinYear_bounds:
  "0 \<le> DayWithinYear t \<and> DayWithinYear t < DaysInYear (YearFromTime t)"
  using YearFromTime_bounds [of t] DayFromYear_step [of "YearFromTime t"]
  by (simp add: DayWithinYear_def)

lemma div_bounds:
  fixes x k :: int
  assumes "0 < k"
  shows "k * (x div k) \<le> x \<and> x < k * (x div k) + k"
proof -
  have "k * (x div k) + x mod k = x" by simp
  then show ?thesis
    using pos_mod_bound [OF assms, of x] pos_mod_sign [OF assms, of x] by linarith
qed

lemma Day_range:
  assumes "\<bar>t\<bar> \<le> 8640000000000000"
  shows "- 100000000 \<le> Day t \<and> Day t \<le> 100000000"
proof -
  have "86400000 * (t div 86400000) \<le> t \<and> t < 86400000 * (t div 86400000) + 86400000"
    by (rule div_bounds) simp
  then show ?thesis using assms unfolding Day_def msPerDay_def by linarith
qed

lemma large_aux:
  fixes y q4 q100 q400 :: int
  assumes "1000000 \<le> y" "y - 1969 < 4 * q4 + 4" "100 * q100 \<le> y - 1901"
    "y - 1601 < 400 * q400 + 400"
  shows "100000000 < 365 * (y - 1970) + q4 - q100 + q400"
  using assms by (simp add: algebra_simps)

lemma small_aux:
  fixes y q4 q100 q400 :: int
  assumes "y \<le> - 999999" "4 * q4 \<le> y - 1969" "y - 1901 < 100 * q100 + 100"
    "400 * q400 \<le> y - 1601"
  shows "365 * (y - 1970) + q4 - q100 + q400 < - 100000000"
  using assms by (simp add: algebra_simps)

lemma DayFromYear_large:
  assumes y: "1000000 \<le> y"
  shows "100000000 < DayFromYear y"
proof -
  have a: "4 * ((y - 1969) div 4) \<le> y - 1969 \<and> y - 1969 < 4 * ((y - 1969) div 4) + 4"
    by (rule div_bounds) simp
  have b: "100 * ((y - 1901) div 100) \<le> y - 1901 \<and> y - 1901 < 100 * ((y - 1901) div 100) + 100"
    by (rule div_bounds) simp
  have c: "400 * ((y - 1601) div 400) \<le> y - 1601 \<and> y - 1601 < 400 * ((y - 1601) div 400) + 400"
    by (rule div_bounds) simp
  show ?thesis
    using large_aux [OF y conjunct2 [OF a] conjunct1 [OF b] conjunct2 [OF c]]
    by (simp only: DayFromYear_def)
qed

lemma DayFromYear_small:
  assumes y: "y \<le> - 999999"
  shows "DayFromYear y < - 100000000"
proof -
  have a: "4 * ((y - 1969) div 4) \<le> y - 1969 \<and> y - 1969 < 4 * ((y - 1969) div 4) + 4"
    by (rule div_bounds) simp
  have b: "100 * ((y - 1901) div 100) \<le> y - 1901 \<and> y - 1901 < 100 * ((y - 1901) div 100) + 100"
    by (rule div_bounds) simp
  have c: "400 * ((y - 1601) div 400) \<le> y - 1601 \<and> y - 1601 < 400 * ((y - 1601) div 400) + 400"
    by (rule div_bounds) simp
  show ?thesis
    using small_aux [OF y conjunct1 [OF a] conjunct2 [OF b] conjunct1 [OF c]]
    by (simp only: DayFromYear_def)
qed

lemma YearFromTime_range:
  assumes "\<bar>t\<bar> \<le> 8640000000000000"
  shows "- 999999 \<le> YearFromTime t \<and> YearFromTime t \<le> 999999"
proof -
  note d = Day_range [OF assms]
  note b = YearFromTime_bounds [of t]
  have "YearFromTime t < 1000000"
  proof (rule ccontr)
    assume "\<not> YearFromTime t < 1000000"
    then have "100000000 < DayFromYear (YearFromTime t)" using DayFromYear_large by simp
    with b d show False by simp
  qed
  moreover have "- 1000000 < YearFromTime t"
  proof (rule ccontr)
    assume "\<not> - 1000000 < YearFromTime t"
    then have "DayFromYear (YearFromTime t + 1) < - 100000000" using DayFromYear_small by simp
    with b d show False by simp
  qed
  ultimately show ?thesis by simp
qed

lemma InLeapYear_cases: "InLeapYear t = 0 \<or> InLeapYear t = 1"
  by (simp add: InLeapYear_def)

lemma DayWithinYear_leap: "DayWithinYear t < 365 + InLeapYear t"
  using DayWithinYear_bounds [of t] DaysInYear_bounds [of "YearFromTime t"]
  by (auto simp: InLeapYear_def)

lemma MonthFromTime_range: "0 \<le> MonthFromTime t \<and> MonthFromTime t \<le> 11"
  by (simp add: MonthFromTime_def Let_def)

lemma DateFromTime_range: "1 \<le> DateFromTime t \<and> DateFromTime t \<le> 31"
proof -
  have d: "0 \<le> DayWithinYear t" "DayWithinYear t < 365 + InLeapYear t"
    using DayWithinYear_bounds [of t] DayWithinYear_leap [of t] by simp_all
  show ?thesis
    using d InLeapYear_cases [of t]
    by (auto simp: DateFromTime_def MonthFromTime_def month_start_def Let_def)
qed

lemma time_fields:
  "MakeDate (Day t) (MakeTime (HourFromTime t) (MinFromTime t) (SecFromTime t) (msFromTime t)) = t"
proof -
  define a where "a = t div 1000"
  define b where "b = t div 60000"
  define c where "c = t div 3600000"
  define d where "d = t div 86400000"
  have ba: "b = a div 60" unfolding a_def b_def by (simp add: zdiv_zmult2_eq [symmetric])
  have cb: "c = b div 60" unfolding b_def c_def by (simp add: zdiv_zmult2_eq [symmetric])
  have dc: "d = c div 24" unfolding c_def d_def by (simp add: zdiv_zmult2_eq [symmetric])
  have 1: "1000 * a + t mod 1000 = t" unfolding a_def by simp
  have 2: "60 * b + a mod 60 = a" unfolding ba by simp
  have 3: "60 * c + b mod 60 = b" unfolding cb by simp
  have 4: "24 * d + c mod 24 = c" unfolding dc by simp
  have "d * 86400000 + (c mod 24 * 3600000 + b mod 60 * 60000 + a mod 60 * 1000 + t mod 1000)
          = 1000 * (60 * (60 * (24 * d + c mod 24) + b mod 60) + a mod 60) + t mod 1000"
    by (simp add: algebra_simps)
  also have "\<dots> = t" by (simp only: 4 3 2 1)
  finally show ?thesis
    by (simp only: MakeDate_def MakeTime_def Day_def msPerDay_def HourFromTime_def
        MinFromTime_def SecFromTime_def msFromTime_def a_def b_def c_def d_def)
qed

lemma time_field_ranges:
  "0 \<le> HourFromTime t \<and> HourFromTime t \<le> 23 \<and> 0 \<le> MinFromTime t \<and> MinFromTime t \<le> 59
   \<and> 0 \<le> SecFromTime t \<and> SecFromTime t \<le> 59 \<and> 0 \<le> msFromTime t \<and> msFromTime t \<le> 999"
proof -
  have "HourFromTime t < 24" "MinFromTime t < 60" "SecFromTime t < 60" "msFromTime t < 1000"
    by (simp_all add: HourFromTime_def MinFromTime_def SecFromTime_def msFromTime_def)
  moreover have "0 \<le> HourFromTime t" "0 \<le> MinFromTime t" "0 \<le> SecFromTime t" "0 \<le> msFromTime t"
    by (simp_all add: HourFromTime_def MinFromTime_def SecFromTime_def msFromTime_def)
  ultimately show ?thesis by simp
qed

lemma small_digit: "d < 10 \<Longrightarrow> d = 0 \<or> d = 1 \<or> d = 2 \<or> d = 3 \<or> d = 4 \<or> d = 5 \<or> d = 6 \<or> d = 7
    \<or> d = 8 \<or> d = (9::nat)"
  by presburger

lemma digit_val_digit: "d < 10 \<Longrightarrow> digit_val (digit d) = Some d"
  using small_digit [of d] by (auto simp: digit_val_def digit_def)

lemma digit_not_sign: "d < 10 \<Longrightarrow> digit d \<noteq> 0x2B \<and> digit d \<noteq> 0x2D"
  using small_digit [of d] by (auto simp: digit_def)

lemma number_of_digits2:
  "a < 10 \<Longrightarrow> b < 10 \<Longrightarrow> number_of [digit a, digit b] = Some (10 * a + b)"
  by (simp add: number_of_def digit_val_digit)

lemma number_of_digits3:
  "a < 10 \<Longrightarrow> b < 10 \<Longrightarrow> c < 10 \<Longrightarrow>
   number_of [digit a, digit b, digit c] = Some (10 * (10 * a + b) + c)"
  by (simp add: number_of_def digit_val_digit)

lemma number_of_digits4:
  "a < 10 \<Longrightarrow> b < 10 \<Longrightarrow> c < 10 \<Longrightarrow> d < 10 \<Longrightarrow>
   number_of [digit a, digit b, digit c, digit d] = Some (10 * (10 * (10 * a + b) + c) + d)"
  by (simp add: number_of_def digit_val_digit)

lemma number_of_digits6:
  "a < 10 \<Longrightarrow> b < 10 \<Longrightarrow> c < 10 \<Longrightarrow> d < 10 \<Longrightarrow> e < 10 \<Longrightarrow> f < 10 \<Longrightarrow>
   number_of [digit a, digit b, digit c, digit d, digit e, digit f]
     = Some (10 * (10 * (10 * (10 * (10 * a + b) + c) + d) + e) + f)"
  by (simp add: number_of_def digit_val_digit)

lemma decimal_step: "10 * (n div (10 * k)) + n div k mod 10 = n div (k::nat)"
proof -
  have "n div (10 * k) = n div k div 10" by (simp add: div_mult2_eq mult.commute)
  then show ?thesis by simp
qed

lemma number_of_2:
  assumes "n < 100"
  shows "number_of [digit (n div 10 mod 10), digit (n mod 10)] = Some n"
proof -
  have t: "n div 10 mod 10 = n div 10" using assms by simp
  have 1: "10 * (n div 10) + n mod 10 = n" by simp
  have "number_of [digit (n div 10 mod 10), digit (n mod 10)]
          = Some (10 * (n div 10 mod 10) + n mod 10)"
    by (rule number_of_digits2) simp_all
  then show ?thesis by (simp only: t 1)
qed

lemma number_of_3:
  assumes "n < 1000"
  shows "number_of [digit (n div 100 mod 10), digit (n div 10 mod 10), digit (n mod 10)] = Some n"
proof -
  have t: "n div 100 mod 10 = n div 100" using assms by simp
  have 2: "10 * (n div 100) + n div 10 mod 10 = n div 10" using decimal_step [of n 10] by simp
  have 1: "10 * (n div 10) + n mod 10 = n" by simp
  have "number_of [digit (n div 100 mod 10), digit (n div 10 mod 10), digit (n mod 10)]
          = Some (10 * (10 * (n div 100 mod 10) + n div 10 mod 10) + n mod 10)"
    by (rule number_of_digits3) simp_all
  then show ?thesis by (simp only: t 2 1)
qed

lemma number_of_4:
  assumes "n < 10000"
  shows "number_of [digit (n div 1000 mod 10), digit (n div 100 mod 10), digit (n div 10 mod 10),
              digit (n mod 10)] = Some n"
proof -
  have t: "n div 1000 mod 10 = n div 1000" using assms by simp
  have 3: "10 * (n div 1000) + n div 100 mod 10 = n div 100" using decimal_step [of n 100] by simp
  have 2: "10 * (n div 100) + n div 10 mod 10 = n div 10" using decimal_step [of n 10] by simp
  have 1: "10 * (n div 10) + n mod 10 = n" by simp
  have "number_of [digit (n div 1000 mod 10), digit (n div 100 mod 10), digit (n div 10 mod 10),
              digit (n mod 10)]
          = Some (10 * (10 * (10 * (n div 1000 mod 10) + n div 100 mod 10) + n div 10 mod 10)
                  + n mod 10)"
    by (rule number_of_digits4) simp_all
  then show ?thesis by (simp only: t 3 2 1)
qed

lemma number_of_6:
  assumes "n < 1000000"
  shows "number_of [digit (n div 100000 mod 10), digit (n div 10000 mod 10),
              digit (n div 1000 mod 10), digit (n div 100 mod 10), digit (n div 10 mod 10),
              digit (n mod 10)] = Some n"
proof -
  have t: "n div 100000 mod 10 = n div 100000" using assms by simp
  have 5: "10 * (n div 100000) + n div 10000 mod 10 = n div 10000"
    using decimal_step [of n 10000] by simp
  have 4: "10 * (n div 10000) + n div 1000 mod 10 = n div 1000"
    using decimal_step [of n 1000] by simp
  have 3: "10 * (n div 1000) + n div 100 mod 10 = n div 100" using decimal_step [of n 100] by simp
  have 2: "10 * (n div 100) + n div 10 mod 10 = n div 10" using decimal_step [of n 10] by simp
  have 1: "10 * (n div 10) + n mod 10 = n" by simp
  have "number_of [digit (n div 100000 mod 10), digit (n div 10000 mod 10),
              digit (n div 1000 mod 10), digit (n div 100 mod 10), digit (n div 10 mod 10),
              digit (n mod 10)]
          = Some (10 * (10 * (10 * (10 * (10 * (n div 100000 mod 10) + n div 10000 mod 10)
                  + n div 1000 mod 10) + n div 100 mod 10) + n div 10 mod 10) + n mod 10)"
    by (rule number_of_digits6) simp_all
  then show ?thesis by (simp only: t 5 4 3 2 1)
qed

lemma digit_not_plus [simp]: "d < 10 \<Longrightarrow> (digit d = 0x2B) = False"
  using digit_not_sign [of d] by simp

lemma digit_not_minus [simp]: "d < 10 \<Longrightarrow> (digit d = 0x2D) = False"
  using digit_not_sign [of d] by simp

lemma split_year_plain: "split_year (pad4 n @ rest) = Some (1, pad4 n, rest)"
  by (simp add: split_year_def pad4_def)

lemma split_year_minus: "split_year (0x2D # pad6 n @ rest) = Some (- 1, pad6 n, rest)"
  by (simp add: split_year_def pad6_def)

lemma split_year_plus: "split_year (0x2B # pad6 n @ rest) = Some (1, pad6 n, rest)"
  by (simp add: split_year_def pad6_def)

lemma number_of_pad2: "n < 100 \<Longrightarrow> number_of (pad2 n) = Some n"
  unfolding pad2_def by (rule number_of_2)

lemma number_of_pad3: "n < 1000 \<Longrightarrow> number_of (pad3 n) = Some n"
  unfolding pad3_def by (rule number_of_3)

lemma number_of_pad4: "n < 10000 \<Longrightarrow> number_of (pad4 n) = Some n"
  unfolding pad4_def by (rule number_of_4)

lemma number_of_pad6: "n < 1000000 \<Longrightarrow> number_of (pad6 n) = Some n"
  unfolding pad6_def by (rule number_of_6)

lemma parse_date_fields:
  assumes sy: "split_year s = Some (sg, ys,
      [0x2D] @ pad2 mo @ [0x2D] @ pad2 dd @ [0x54] @ pad2 hh @ [0x3A] @ pad2 mi @ [0x3A]
        @ pad2 ss @ [0x2E] @ pad3 ms @ [0x5A])"
    and y: "number_of ys = Some y"
    and r: "1 \<le> mo" "mo \<le> 12" "1 \<le> dd" "dd \<le> 31" "hh \<le> 23" "mi \<le> 59" "ss \<le> 59" "ms \<le> 999"
    and z: "\<not> (sg = - 1 \<and> y = 0)"
  shows "parse_date s
           = TimeClip (MakeDate (MakeDay (sg * int y) (int mo - 1) (int dd))
                                (MakeTime (int hh) (int mi) (int ss) (int ms)))"
proof -
  obtain m1 m2 where pm: "pad2 mo = [m1, m2]" by (simp add: pad2_def)
  obtain d1 d2 where pd: "pad2 dd = [d1, d2]" by (simp add: pad2_def)
  obtain h1 h2 where ph: "pad2 hh = [h1, h2]" by (simp add: pad2_def)
  obtain n1 n2 where pn: "pad2 mi = [n1, n2]" by (simp add: pad2_def)
  obtain s1 s2 where ps: "pad2 ss = [s1, s2]" by (simp add: pad2_def)
  obtain f1 f2 f3 where pf: "pad3 ms = [f1, f2, f3]" by (simp add: pad3_def)
  have n: "number_of [m1, m2] = Some mo" "number_of [d1, d2] = Some dd"
    "number_of [h1, h2] = Some hh" "number_of [n1, n2] = Some mi"
    "number_of [s1, s2] = Some ss" "number_of [f1, f2, f3] = Some ms"
    using r number_of_pad2 [of mo] number_of_pad2 [of dd] number_of_pad2 [of hh]
      number_of_pad2 [of mi] number_of_pad2 [of ss] number_of_pad3 [of ms]
    unfolding pm pd ph pn ps pf by simp_all
  show ?thesis
    unfolding parse_date_def sy pm pd ph pn ps pf
    using r z by (simp add: n y)
qed

lemma MakeDay_of_time:
  "MakeDay (YearFromTime t) (MonthFromTime t) (DateFromTime t) = Day t"
proof -
  have m: "0 \<le> MonthFromTime t" "MonthFromTime t \<le> 11"
    using MonthFromTime_range [of t] by simp_all
  then have "MonthFromTime t div 12 = 0" "MonthFromTime t mod 12 = MonthFromTime t" by simp_all
  then show ?thesis
    by (simp add: MakeDay_def DateFromTime_def DayWithinYear_def InLeapYear_def)
qed

lemma year_string_split:
  assumes "- 999999 \<le> y" "y \<le> 999999"
  shows "\<exists>sg ys n. split_year (year_string y @ rest) = Some (sg, ys, rest)
           \<and> number_of ys = Some n \<and> sg * int n = y \<and> \<not> (sg = - 1 \<and> n = 0)"
proof (cases "0 \<le> y \<and> y \<le> 9999")
  case True
  then have "year_string y = pad4 (nat y)" by (simp add: year_string_def)
  moreover have "number_of (pad4 (nat y)) = Some (nat y)" using True by (intro number_of_pad4) linarith
  ultimately show ?thesis using True split_year_plain [of "nat y" rest] by simp
next
  case False
  show ?thesis
  proof (cases "y < 0")
    case True
    then have "year_string y = 0x2D # pad6 (nat \<bar>y\<bar>)" by (simp add: year_string_def)
    moreover have "number_of (pad6 (nat \<bar>y\<bar>)) = Some (nat \<bar>y\<bar>)"
      using assms by (intro number_of_pad6) linarith
    ultimately show ?thesis using True split_year_minus [of "nat \<bar>y\<bar>" rest] by simp
  next
    case pos: False
    then have "year_string y = 0x2B # pad6 (nat \<bar>y\<bar>)" using False by (simp add: year_string_def)
    moreover have "number_of (pad6 (nat \<bar>y\<bar>)) = Some (nat \<bar>y\<bar>)"
      using assms by (intro number_of_pad6) linarith
    ultimately show ?thesis using pos split_year_plus [of "nat \<bar>y\<bar>" rest] by simp
  qed
qed

lemma parse_toISOString:
  assumes "\<bar>t\<bar> \<le> 8640000000000000"
  shows "\<exists>s. toISOString (Some t) = Inr s \<and> parse_date s = Some t"
proof -
  define mo where "mo = nat (MonthFromTime t + 1)"
  define dd where "dd = nat (DateFromTime t)"
  define hh where "hh = nat (HourFromTime t)"
  define mi where "mi = nat (MinFromTime t)"
  define ss where "ss = nat (SecFromTime t)"
  define ms where "ms = nat (msFromTime t)"
  define rest where "rest = [0x2D] @ pad2 mo @ [0x2D] @ pad2 dd @ [0x54] @ pad2 hh @ [0x3A]
    @ pad2 mi @ [0x3A] @ pad2 ss @ [0x2E] @ pad3 ms @ [0x5A :: 16 word]"
  have iso: "toISOString (Some t) = Inr (year_string (YearFromTime t) @ rest)"
    by (simp add: toISOString_def rest_def mo_def dd_def hh_def mi_def ss_def ms_def)
  note mr = MonthFromTime_range [of t]
  note dr = DateFromTime_range [of t]
  note tr = time_field_ranges [of t]
  have i: "int mo - 1 = MonthFromTime t" "int dd = DateFromTime t" "int hh = HourFromTime t"
    "int mi = MinFromTime t" "int ss = SecFromTime t" "int ms = msFromTime t"
    using mr dr tr unfolding mo_def dd_def hh_def mi_def ss_def ms_def by linarith+
  have r: "1 \<le> mo" "mo \<le> 12" "1 \<le> dd" "dd \<le> 31" "hh \<le> 23" "mi \<le> 59" "ss \<le> 59" "ms \<le> 999"
    using mr dr tr unfolding mo_def dd_def hh_def mi_def ss_def ms_def by linarith+
  obtain sg ys n where sy: "split_year (year_string (YearFromTime t) @ rest) = Some (sg, ys, rest)"
    and ny: "number_of ys = Some n" and yn: "sg * int n = YearFromTime t"
    and nz: "\<not> (sg = - 1 \<and> n = 0)"
    using year_string_split [of "YearFromTime t" rest] YearFromTime_range [OF assms] by blast
  have "parse_date (year_string (YearFromTime t) @ rest)
          = TimeClip (MakeDate (MakeDay (sg * int n) (int mo - 1) (int dd))
                               (MakeTime (int hh) (int mi) (int ss) (int ms)))"
    using sy [unfolded rest_def] ny r nz unfolding rest_def by (rule parse_date_fields)
  also have "\<dots> = TimeClip t"
    unfolding yn i MakeDay_of_time time_fields ..
  also have "\<dots> = Some t" using assms by (simp add: TimeClip_def)
  finally show ?thesis using iso by simp
qed

text \<open>
  The model on concrete values: a time value and its ISO string, and the order in which an
  object lists its keys (array indices first, ascending), which is why the round trip is
  stated for the set of pairs and not for their order.
\<close>

lemma toISOString_example:
  "toISOString (Some 1762160000123) = Inr (ascii ''2025-11-03T08:53:20.123Z'')"
  by code_simp

lemma parse_date_example:
  "parse_date (ascii ''2025-11-03T08:53:20.123Z'') = Some 1762160000123"
  by code_simp

lemma array_index_examples:
  "array_index (ascii ''10'') = Some 10" "array_index (ascii ''9'') = Some 9"
  "array_index (ascii ''b.ts'') = None"
  by (simp_all add: array_index_def number_of_def digit_val_def ascii_def show_nat.simps digit_def)

lemma Object_fromEntries_example:
  "Object_fromEntries [(ascii ''b.ts'', ascii ''1''), (ascii ''10'', ascii ''2''), (ascii ''9'', ascii ''3'')]
     = [(ascii ''9'', ascii ''3''), (ascii ''10'', ascii ''2''), (ascii ''b.ts'', ascii ''1'')]"
proof -
  have ne: "ascii ''b.ts'' \<noteq> ascii ''10''" "ascii ''b.ts'' \<noteq> ascii ''9''" "ascii ''10'' \<noteq> ascii ''9''"
    by (simp_all add: ascii_def)
  show ?thesis
    using ne by (simp add: Object_fromEntries_def define_property_def map_has_def array_index_examples)
qed

subsection \<open>Serialization\<close>

lemma insert_index_set: "set (insert_index n k v ob) = insert (k, v) (set ob)"
  by (induction ob) (auto split: option.splits if_splits)

lemma define_property_set:
  "\<not> map_has ob k \<Longrightarrow> set (define_property ob k v) = insert (k, v) (set ob)"
  by (auto simp: define_property_def insert_index_set split: option.splits)

lemma define_property_distinct:
  assumes "distinct (map fst ob)"
  shows "distinct (map fst (define_property ob k v))"
proof (cases "map_has ob k")
  case True
  then show ?thesis using assms by (simp add: define_property_def distinct_update)
next
  case False
  then have nk: "k \<notin> fst ` set ob" by (simp add: map_has_def map_of_eq_None_iff)
  have ii: "distinct (map fst (insert_index n k v ob))" for n
    using assms nk
  proof (induction ob)
    case Nil
    then show ?case by simp
  next
    case (Cons p ob)
    then show ?case
      by (cases p) (auto simp: insert_index_set image_iff split: option.splits)
  qed
  show ?thesis using False assms nk ii
    by (auto simp: define_property_def split: option.splits)
qed

lemma fromEntries_fold:
  assumes "distinct (map fst m)" and "distinct (map fst ob)"
    and "fst ` set ob \<inter> fst ` set m = {}"
  shows "set (fold (\<lambda>(k, v) ob. define_property ob k v) m ob) = set ob \<union> set m
       \<and> distinct (map fst (fold (\<lambda>(k, v) ob. define_property ob k v) m ob))"
  using assms
proof (induction m arbitrary: ob)
  case Nil
  then show ?case by simp
next
  case (Cons p m)
  obtain k v where p: "p = (k, v)" by (cases p)
  have nk: "\<not> map_has ob k" using Cons.prems(3) by (auto simp: p map_has_def map_of_eq_None_iff)
  have s: "set (define_property ob k v) = insert (k, v) (set ob)"
    using nk by (rule define_property_set)
  have d: "distinct (map fst (define_property ob k v))"
    using Cons.prems(2) by (rule define_property_distinct)
  have i: "fst ` set (define_property ob k v) \<inter> fst ` set m = {}"
    using Cons.prems(1,3) by (auto simp: s p)
  have "distinct (map fst m)" using Cons.prems(1) by simp
  from Cons.IH [OF this d i] show ?case by (simp add: p s)
qed

lemma map_set_new: "k \<notin> fst ` set m \<Longrightarrow> set (map_set m k v) = insert (k, v) (set m)"
  unfolding map_set_def by (induction m) auto

lemma of_entries_fold:
  assumes "distinct (map fst es)" and "distinct (map fst m)"
    and "fst ` set m \<inter> fst ` set es = {}"
  shows "set (fold (\<lambda>(k, v) m. map_set m k v) es m) = set m \<union> set es
       \<and> distinct (map fst (fold (\<lambda>(k, v) m. map_set m k v) es m))"
  using assms
proof (induction es arbitrary: m)
  case Nil
  then show ?case by simp
next
  case (Cons p es)
  obtain k v where p: "p = (k, v)" by (cases p)
  have nk: "k \<notin> fst ` set m" using Cons.prems(3) by (auto simp: p)
  have s: "set (map_set m k v) = insert (k, v) (set m)" using nk by (rule map_set_new)
  have d: "distinct (map fst (map_set m k v))"
    using Cons.prems(2) by (simp add: map_set_def distinct_update)
  have i: "fst ` set (map_set m k v) \<inter> fst ` set es = {}"
    using Cons.prems(1,3) by (auto simp: s p)
  have "distinct (map fst es)" using Cons.prems(1) by simp
  from Cons.IH [OF this d i] show ?case by (simp add: p s)
qed

lemma files_roundtrip:
  assumes "distinct (map fst m)"
  shows "set (Map_of_entries (Object_entries (Object_fromEntries m))) = set m
       \<and> distinct (map fst (Map_of_entries (Object_entries (Object_fromEntries m))))"
proof -
  have o: "set (Object_fromEntries m) = set m \<and> distinct (map fst (Object_fromEntries m))"
    using fromEntries_fold [OF assms, of "[]"] by (simp add: Object_fromEntries_def)
  then show ?thesis
    using of_entries_fold [of "Object_fromEntries m" "[]"]
    by (simp add: Map_of_entries_def Object_entries_def)
qed

text \<open>
  Claim C8, as amended. For every Version whose timestamp is a valid Date (a time value of
  magnitude at most 8.64e15, as every Date made by \<^verbatim>\<open>new Date()\<close> is) and whose files
  form a Map, \<^verbatim>\<open>serializeVersion\<close> returns, and \<^verbatim>\<open>deserializeVersion\<close> of the result,
  in whatever store, gives a Version with the same id, status and error log, the same
  timestamp to the millisecond (so to the second), and a new Map holding exactly the
  same path and content pairs, as many as before.
\<close>

theorem serialize_roundtrip:
  assumes "timestamp v = Some t" and "\<bar>t\<bar> \<le> 8640000000000000"
    and "distinct (map_keys (h ! vfiles v))"
  shows "\<exists>d. serializeVersion v h = Inr d
           \<and> (\<forall>h2. \<exists>v' h'. deserializeVersion d h2 = (v', h')
                 \<and> vid v' = vid v \<and> status v' = status v \<and> errorLog v' = errorLog v
                 \<and> timestamp v' = timestamp v
                 \<and> set (h' ! vfiles v') = set (h ! vfiles v)
                 \<and> distinct (map_keys (h' ! vfiles v'))
                 \<and> length (h' ! vfiles v') = length (h ! vfiles v))"
proof -
  obtain s where s: "toISOString (Some t) = Inr s" and ps: "parse_date s = Some t"
    using parse_toISOString [OF assms(2)] by blast
  let ?d = "\<lparr>data_id = vid v, data_timestamp = s,
             data_files = Object_fromEntries (h ! vfiles v),
             data_status = status v, data_errorLog = errorLog v\<rparr>"
  let ?m = "Map_of_entries (Object_entries (Object_fromEntries (h ! vfiles v)))"
  have ser: "serializeVersion v h = Inr ?d"
    by (simp add: serializeVersion_def assms(1) s)
  have dk: "distinct (map fst (h ! vfiles v))" using assms(3) by (simp add: map_keys_def)
  note fr = files_roundtrip [OF dk]
  have len: "length ?m = length (h ! vfiles v)"
  proof -
    have "distinct ?m" using fr by (metis distinct_map)
    moreover have "distinct (h ! vfiles v)" using dk by (metis distinct_map)
    ultimately show ?thesis using fr by (metis distinct_card)
  qed
  have "\<exists>v' h'. deserializeVersion ?d h2 = (v', h')
                 \<and> vid v' = vid v \<and> status v' = status v \<and> errorLog v' = errorLog v
                 \<and> timestamp v' = timestamp v
                 \<and> set (h' ! vfiles v') = set (h ! vfiles v)
                 \<and> distinct (map_keys (h' ! vfiles v'))
                 \<and> length (h' ! vfiles v') = length (h ! vfiles v)" for h2
    using fr len by (simp add: deserializeVersion_def new_Map_def ps assms(1) map_keys_def)
  with ser show ?thesis by blast
qed

theorem serialize_roundtrip_witness:
  "\<exists>d. serializeVersion
          \<lparr>vid = ascii ''v1'', timestamp = Some 1762160000123, vfiles = 0, status = Status_FAILED,
           errorLog = Some (ascii ''boom'')\<rparr>
          [[(ascii ''index.html'', ascii ''A''), (ascii ''10'', ascii ''x'')]] = Inr d
       \<and> (\<forall>h2. \<exists>v' h'. deserializeVersion d h2 = (v', h')
             \<and> vid v' = ascii ''v1'' \<and> status v' = Status_FAILED
             \<and> errorLog v' = Some (ascii ''boom'') \<and> timestamp v' = Some 1762160000123
             \<and> set (h' ! vfiles v') = {(ascii ''index.html'', ascii ''A''), (ascii ''10'', ascii ''x'')}
             \<and> distinct (map_keys (h' ! vfiles v'))
             \<and> length (h' ! vfiles v') = 2)"
proof -
  let ?v = "\<lparr>vid = ascii ''v1'', timestamp = Some 1762160000123, vfiles = 0, status = Status_FAILED,
           errorLog = Some (ascii ''boom'')\<rparr>"
  let ?h = "[[(ascii ''index.html'', ascii ''A''), (ascii ''10'', ascii ''x'')]]"
  have 1: "timestamp ?v = Some 1762160000123" by simp
  have 2: "\<bar>1762160000123 :: int\<bar> \<le> 8640000000000000" by simp
  have 3: "distinct (map_keys (?h ! vfiles ?v))" by (simp add: map_keys_def ascii_def)
  show ?thesis
    using serialize_roundtrip [OF 1 2 3] by (simp add: numeral_2_eq_2)
qed

text \<open>
  Claim C8 as stated fails for a Version whose timestamp is the invalid Date:
  \<^verbatim>\<open>toISOString\<close> throws a RangeError, so \<^verbatim>\<open>serializeVersion\<close> returns nothing to
  deserialize.
\<close>

theorem serialize_invalid_date:
  "serializeVersion \<lparr>vid = ascii ''v1'', timestamp = None, vfiles = 0, status = Status_VALID,
                      errorLog = None\<rparr> [[]] = Inl InvalidTimeValue"
  by (simp add: serializeVersion_def toISOString_def)

subsection \<open>Sessions\<close>

lemma join_str_Cons:
  "join_str (s # ss) sep = (if ss = [] then s else s @ sep @ join_str ss sep)"
  by (cases ss) simp_all

lemma join_str_names:
  "u \<in> set l \<Longrightarrow> \<exists>pre post. join_str (map f l) sep = pre @ f u @ post"
proof (induction l)
  case Nil
  then show ?case by simp
next
  case (Cons x l)
  show ?case
  proof (cases "u = x")
    case True
    have "join_str (map f (x # l)) sep
            = [] @ f u @ (if l = [] then [] else sep @ join_str (map f l) sep)"
      using True by (simp add: join_str_Cons)
    then show ?thesis by blast
  next
    case False
    then have ul: "u \<in> set l" using Cons.prems by simp
    then obtain pre post where "join_str (map f l) sep = pre @ f u @ post"
      using Cons.IH by blast
    moreover have "l \<noteq> []" using ul by auto
    ultimately have "join_str (map f (x # l)) sep = (f x @ sep @ pre) @ f u @ post"
      by (simp add: join_str_Cons)
    then show ?thesis by blast
  qed
qed

text \<open>
  Claim C4. For a session that exists, in state \<open>s\<close>: a target outside the allowed set
  of \<open>s\<close> makes \<^verbatim>\<open>transitionState\<close> throw InvalidTransition, with a message that
  contains the names of \<open>s\<close>, of the target and of every allowed state, and leaves the
  manager (so the state of the session) as it was; a target in the allowed set makes the
  call return and the state of the session become the target. The allowed sets are the
  ones of the transition table.
\<close>

theorem transition_table_enforced:
  assumes "map_get (sessions sm) sessionId = Some s"
  shows "(t \<notin> set (VALID_TRANSITIONS (state s)) \<longrightarrow>
            transitionState sessionId t log sm
              = (Inl (InvalidTransition (state s) t (VALID_TRANSITIONS (state s))), sm)
          \<and> message (InvalidTransition (state s) t (VALID_TRANSITIONS (state s)))
              = ascii ''Invalid state transition from '' @ state_name (state s) @ ascii '' to ''
                  @ state_name t @ ascii ''. Valid transitions: ''
                  @ join_str (map state_name (VALID_TRANSITIONS (state s))) (ascii '', '')
          \<and> str_includes (message (InvalidTransition (state s) t (VALID_TRANSITIONS (state s))))
               (state_name (state s))
          \<and> str_includes (message (InvalidTransition (state s) t (VALID_TRANSITIONS (state s))))
               (state_name t)
          \<and> (\<forall>u \<in> set (VALID_TRANSITIONS (state s)).
               str_includes (message (InvalidTransition (state s) t (VALID_TRANSITIONS (state s))))
                 (state_name u)))
       \<and> (t \<in> set (VALID_TRANSITIONS (state s)) \<longrightarrow>
            (\<exists>sm' s'. transitionState sessionId t log sm = (Inr (), sm')
               \<and> map_get (sessions sm') sessionId = Some s' \<and> state s' = t))
       \<and> set (VALID_TRANSITIONS CREATED) = {GENERATING, FAILED}
       \<and> set (VALID_TRANSITIONS GENERATING) = {BUILDING, FAILED}
       \<and> set (VALID_TRANSITIONS BUILDING) = {VALIDATING, FAILED}
       \<and> set (VALID_TRANSITIONS VALIDATING) = {READY, FAILED}
       \<and> set (VALID_TRANSITIONS READY) = {GENERATING, BUILDING, FIXING}
       \<and> set (VALID_TRANSITIONS FAILED) = {FIXING, GENERATING}
       \<and> set (VALID_TRANSITIONS FIXING) = {BUILDING, FAILED}"
proof -
  let ?valid = "VALID_TRANSITIONS (state s)"
  let ?msg = "message (InvalidTransition (state s) t ?valid)"
  have m: "?msg = ascii ''Invalid state transition from '' @ state_name (state s) @ ascii '' to ''
                  @ state_name t @ ascii ''. Valid transitions: ''
                  @ join_str (map state_name ?valid) (ascii '', '')"
    by simp
  have i1: "str_includes ?msg (state_name (state s))"
    unfolding str_includes_iff m by blast
  have "?msg = (ascii ''Invalid state transition from '' @ state_name (state s) @ ascii '' to '')
                  @ state_name t @ (ascii ''. Valid transitions: ''
                  @ join_str (map state_name ?valid) (ascii '', ''))"
    by simp
  then have i2: "str_includes ?msg (state_name t)"
    unfolding str_includes_iff by blast
  have i3: "str_includes ?msg (state_name u)" if u: "u \<in> set ?valid" for u
  proof -
    obtain pre post where "join_str (map state_name ?valid) (ascii '', '') = pre @ state_name u @ post"
      using join_str_names [OF u, of state_name "ascii '', ''"] by blast
    then have "?msg = (ascii ''Invalid state transition from '' @ state_name (state s) @ ascii '' to ''
                  @ state_name t @ ascii ''. Valid transitions: '' @ pre) @ state_name u @ post"
      by simp
    then show ?thesis unfolding str_includes_iff by blast
  qed
  have fail: "transitionState sessionId t log sm = (Inl (InvalidTransition (state s) t ?valid), sm)"
    if "t \<notin> set ?valid"
    using that assms by (simp add: transitionState_def)
  have ok: "\<exists>sm' s'. transitionState sessionId t log sm = (Inr (), sm')
               \<and> map_get (sessions sm') sessionId = Some s' \<and> state s' = t"
    if "t \<in> set ?valid"
    using that assms by (simp add: transitionState_def Let_def map_get_map_set)
  show ?thesis using m i1 i2 i3 fail ok by simp
qed

theorem transition_table_enforced_witness:
  "transitionState (ascii ''s1'') READY []
      \<lparr>sessions = [(ascii ''s1'',
          \<lparr>sid = ascii ''s1'', userId = ascii ''anonymous'', state = GENERATING,
           currentVersion = None, lastValidVersion = None, createdAt = 0,
           expiresAt = 86400000, metadata = None :: unit option\<rparr>)],
        sessionLocks = [(ascii ''s1'', False)]\<rparr>
     = (Inl (InvalidTransition GENERATING READY [BUILDING, FAILED]),
        \<lparr>sessions = [(ascii ''s1'',
          \<lparr>sid = ascii ''s1'', userId = ascii ''anonymous'', state = GENERATING,
           currentVersion = None, lastValidVersion = None, createdAt = 0,
           expiresAt = 86400000, metadata = None\<rparr>)],
        sessionLocks = [(ascii ''s1'', False)]\<rparr>)
   \<and> message (InvalidTransition GENERATING READY [BUILDING, FAILED])
       = ascii ''Invalid state transition from GENERATING to READY. Valid transitions: BUILDING, FAILED''
   \<and> (\<exists>sm' s'. transitionState (ascii ''s1'') BUILDING []
      \<lparr>sessions = [(ascii ''s1'',
          \<lparr>sid = ascii ''s1'', userId = ascii ''anonymous'', state = GENERATING,
           currentVersion = None, lastValidVersion = None, createdAt = 0,
           expiresAt = 86400000, metadata = None :: unit option\<rparr>)],
        sessionLocks = [(ascii ''s1'', False)]\<rparr> = (Inr (), sm')
      \<and> map_get (sessions sm') (ascii ''s1'') = Some s' \<and> state s' = BUILDING)"
proof -
  let ?s = "\<lparr>sid = ascii ''s1'', userId = ascii ''anonymous'', state = GENERATING,
           currentVersion = None, lastValidVersion = None, createdAt = 0,
           expiresAt = 86400000, metadata = None :: unit option\<rparr>"
  let ?sm = "\<lparr>sessions = [(ascii ''s1'', ?s)], sessionLocks = [(ascii ''s1'', False)]\<rparr>"
  have g: "map_get (sessions ?sm) (ascii ''s1'') = Some ?s" by (simp add: map_get_def)
  have 1: "transitionState (ascii ''s1'') READY [] ?sm
             = (Inl (InvalidTransition GENERATING READY [BUILDING, FAILED]), ?sm)"
    and 2: "message (InvalidTransition GENERATING READY [BUILDING, FAILED])
       = ascii ''Invalid state transition from GENERATING to READY. Valid transitions: BUILDING, FAILED''"
    using transition_table_enforced [OF g, of READY "[]"] by (simp_all add: ascii_def)
  have 3: "\<exists>sm' s'. transitionState (ascii ''s1'') BUILDING [] ?sm = (Inr (), sm')
      \<and> map_get (sessions sm') (ascii ''s1'') = Some s' \<and> state s' = BUILDING"
    using transition_table_enforced [OF g, of BUILDING "[]"] by simp
  show ?thesis using 1 2 3 by blast
qed

lemma transitionState_absent:
  "map_get (sessions sm) sessionId = None \<Longrightarrow>
   transitionState sessionId t log sm = (Inl (SessionNotFound sessionId), sm)"
  by (simp add: transitionState_def)

lemma getSession_expired:
  "map_get (sessions sm) sessionId = Some s \<Longrightarrow> expiresAt s < now \<Longrightarrow>
   getSession sessionId now sm = (None, deleteSession sessionId sm)"
  by (simp add: getSession_def)

text \<open>
  Claim C3. A session whose \<^verbatim>\<open>expiresAt\<close> (1000) lies before the current time (2000)
  and that is still in the map: \<^verbatim>\<open>getSession\<close> reports it absent, while
  \<^verbatim>\<open>transitionState\<close> does not throw SessionNotFound but returns and moves the session
  from CREATED to GENERATING.
\<close>

theorem transitionState_on_expired_session:
  "fst (getSession (ascii ''s1'') 2000
          \<lparr>sessions = [(ascii ''s1'',
              \<lparr>sid = ascii ''s1'', userId = ascii ''anonymous'', state = CREATED,
               currentVersion = None, lastValidVersion = None, createdAt = 0,
               expiresAt = 1000, metadata = None :: unit option\<rparr>)],
            sessionLocks = [(ascii ''s1'', False)]\<rparr>) = None
   \<and> transitionState (ascii ''s1'') GENERATING []
          \<lparr>sessions = [(ascii ''s1'',
              \<lparr>sid = ascii ''s1'', userId = ascii ''anonymous'', state = CREATED,
               currentVersion = None, lastValidVersion = None, createdAt = 0,
               expiresAt = 1000, metadata = None :: unit option\<rparr>)],
            sessionLocks = [(ascii ''s1'', False)]\<rparr>
     = (Inr (),
          \<lparr>sessions = [(ascii ''s1'',
              \<lparr>sid = ascii ''s1'', userId = ascii ''anonymous'', state = GENERATING,
               currentVersion = None, lastValidVersion = None, createdAt = 0,
               expiresAt = 1000, metadata = None\<rparr>)],
            sessionLocks = [(ascii ''s1'', False)]\<rparr>)"
  by (simp add: getSession_def transitionState_def map_get_def map_set_def)

text \<open>
  Claim C5, as amended. A successful \<^verbatim>\<open>transitionState\<close> of an existing session replaces
  its \<^verbatim>\<open>state\<close> by the target and, when the target is READY and \<^verbatim>\<open>currentVersion\<close>
  is neither null nor the empty string, its \<^verbatim>\<open>lastValidVersion\<close> by
  \<^verbatim>\<open>currentVersion\<close>; in every other case \<^verbatim>\<open>lastValidVersion\<close> stays. No other field
  of the session, no other session and no lock changes.
\<close>

theorem ready_records_last_valid_version:
  assumes "map_get (sessions sm) sessionId = Some s"
    and "t \<in> set (VALID_TRANSITIONS (state s))"
  shows "\<exists>sm'. transitionState sessionId t log sm = (Inr (), sm')
           \<and> map_get (sessions sm') sessionId
               = Some (s\<lparr>state := t,
                         lastValidVersion :=
                           (if t = READY \<and> currentVersion s \<noteq> None \<and> currentVersion s \<noteq> Some []
                            then currentVersion s else lastValidVersion s)\<rparr>)
           \<and> (\<forall>other. other \<noteq> sessionId \<longrightarrow>
                 map_get (sessions sm') other = map_get (sessions sm) other)
           \<and> sessionLocks sm' = sessionLocks sm"
proof -
  have tr: "truthy (currentVersion s) \<longleftrightarrow> currentVersion s \<noteq> None \<and> currentVersion s \<noteq> Some []"
    by (cases "currentVersion s") auto
  show ?thesis
    using assms by (auto simp: transitionState_def Let_def map_get_map_set tr)
qed

theorem ready_records_last_valid_version_witness:
  "\<exists>sm'. transitionState (ascii ''s1'') READY []
      \<lparr>sessions = [(ascii ''s1'',
          \<lparr>sid = ascii ''s1'', userId = ascii ''anonymous'', state = VALIDATING,
           currentVersion = Some (ascii ''v42''), lastValidVersion = None, createdAt = 0,
           expiresAt = 86400000, metadata = None :: unit option\<rparr>)],
        sessionLocks = [(ascii ''s1'', True)]\<rparr> = (Inr (), sm')
     \<and> map_get (sessions sm') (ascii ''s1'')
         = Some \<lparr>sid = ascii ''s1'', userId = ascii ''anonymous'', state = READY,
                 currentVersion = Some (ascii ''v42''), lastValidVersion = Some (ascii ''v42''),
                 createdAt = 0, expiresAt = 86400000, metadata = None\<rparr>
     \<and> sessionLocks sm' = [(ascii ''s1'', True)]"
proof -
  let ?s = "\<lparr>sid = ascii ''s1'', userId = ascii ''anonymous'', state = VALIDATING,
           currentVersion = Some (ascii ''v42''), lastValidVersion = None, createdAt = 0,
           expiresAt = 86400000, metadata = None :: unit option\<rparr>"
  let ?sm = "\<lparr>sessions = [(ascii ''s1'', ?s)], sessionLocks = [(ascii ''s1'', True)]\<rparr>"
  have g: "map_get (sessions ?sm) (ascii ''s1'') = Some ?s" by (simp add: map_get_def)
  have t: "READY \<in> set (VALID_TRANSITIONS (state ?s))" by simp
  have ne: "ascii ''v42'' \<noteq> []" by (simp add: ascii_def)
  show ?thesis
    using ready_records_last_valid_version [OF g t, of "[]"] ne by auto
qed

text \<open>
  Claim C5 as stated fails where \<^verbatim>\<open>currentVersion\<close> is the empty string, which is not
  null: the transition into READY succeeds and \<^verbatim>\<open>lastValidVersion\<close> is still null.
\<close>

theorem ready_with_empty_currentVersion:
  "transitionState (ascii ''s1'') READY []
          \<lparr>sessions = [(ascii ''s1'',
              \<lparr>sid = ascii ''s1'', userId = ascii ''anonymous'', state = VALIDATING,
               currentVersion = Some [], lastValidVersion = None, createdAt = 0,
               expiresAt = 1000, metadata = None :: unit option\<rparr>)],
            sessionLocks = []\<rparr>
     = (Inr (),
          \<lparr>sessions = [(ascii ''s1'',
              \<lparr>sid = ascii ''s1'', userId = ascii ''anonymous'', state = READY,
               currentVersion = Some [], lastValidVersion = None, createdAt = 0,
               expiresAt = 1000, metadata = None\<rparr>)],
            sessionLocks = []\<rparr>)"
  by (simp add: transitionState_def map_get_def map_set_def)

text \<open>
  Claim C9. For every session id: \<^verbatim>\<open>lockSession\<close> on an id that is not locked returns
  true and marks it locked; on a locked id it returns false and changes nothing;
  \<^verbatim>\<open>unlockSession\<close> leaves the id unlocked; and from an unlocked id the calls
  \<^verbatim>\<open>lockSession\<close>, \<^verbatim>\<open>lockSession\<close>, \<^verbatim>\<open>unlockSession\<close>, \<^verbatim>\<open>lockSession\<close> return
  true, false, nothing, true.
\<close>

theorem lock_is_test_and_set:
  "(\<not> isLocked sessionId sm \<longrightarrow>
      lockSession sessionId sm
        = (True, sm\<lparr>sessionLocks := map_set (sessionLocks sm) sessionId True\<rparr>)
      \<and> isLocked sessionId (snd (lockSession sessionId sm)))
   \<and> (isLocked sessionId sm \<longrightarrow> lockSession sessionId sm = (False, sm))
   \<and> \<not> isLocked sessionId (unlockSession sessionId sm)
   \<and> (\<not> isLocked sessionId sm \<longrightarrow>
        (let (r1, sm1) = lockSession sessionId sm;
             (r2, sm2) = lockSession sessionId sm1;
             sm3 = unlockSession sessionId sm2;
             (r4, sm4) = lockSession sessionId sm3
         in r1 = True \<and> r2 = False \<and> r4 = True \<and> sm2 = sm1 \<and> isLocked sessionId sm4))"
  by (auto simp: isLocked_def lockSession_def unlockSession_def Let_def map_get_map_set
      split: option.splits)

theorem lock_is_test_and_set_witness:
  "\<not> isLocked (ascii ''s1'') \<lparr>sessions = [] :: (jsstring, unit Session) jsmap, sessionLocks = []\<rparr>
   \<and> lockSession (ascii ''s1'') \<lparr>sessions = [] :: (jsstring, unit Session) jsmap, sessionLocks = []\<rparr>
       = (True, \<lparr>sessions = [], sessionLocks = [(ascii ''s1'', True)]\<rparr>)
   \<and> isLocked (ascii ''s1'') \<lparr>sessions = [] :: (jsstring, unit Session) jsmap,
                               sessionLocks = [(ascii ''s1'', True)]\<rparr>
   \<and> lockSession (ascii ''s1'') \<lparr>sessions = [] :: (jsstring, unit Session) jsmap,
                                  sessionLocks = [(ascii ''s1'', True)]\<rparr>
       = (False, \<lparr>sessions = [], sessionLocks = [(ascii ''s1'', True)]\<rparr>)"
proof -
  have u: "\<not> isLocked (ascii ''s1'') \<lparr>sessions = [] :: (jsstring, unit Session) jsmap, sessionLocks = []\<rparr>"
    by (simp add: isLocked_def map_get_def)
  have l: "isLocked (ascii ''s1'') \<lparr>sessions = [] :: (jsstring, unit Session) jsmap,
                               sessionLocks = [(ascii ''s1'', True)]\<rparr>"
    by (simp add: isLocked_def map_get_def)
  have 1: "lockSession (ascii ''s1'') \<lparr>sessions = [] :: (jsstring, unit Session) jsmap, sessionLocks = []\<rparr>
       = (True, \<lparr>sessions = [], sessionLocks = [(ascii ''s1'', True)]\<rparr>)"
    using lock_is_test_and_set [of "ascii ''s1''"
        "\<lparr>sessions = [] :: (jsstring, unit Session) jsmap, sessionLocks = []\<rparr>"] u
    by (simp add: map_set_def)
  have 2: "lockSession (ascii ''s1'') \<lparr>sessions = [] :: (jsstring, unit Session) jsmap,
                                  sessionLocks = [(ascii ''s1'', True)]\<rparr>
       = (False, \<lparr>sessions = [], sessionLocks = [(ascii ''s1'', True)]\<rparr>)"
    using lock_is_test_and_set [of "ascii ''s1''"
        "\<lparr>sessions = [] :: (jsstring, unit Session) jsmap, sessionLocks = [(ascii ''s1'', True)]\<rparr>"] l
    by simp
  show ?thesis using u l 1 2 by blast
qed

end
